theory Spec2Isabelle
  imports Complex_Main
begin

section \<open>The worker routine of \<^verbatim>\<open>src/thread/jthread.cpp\<close>\<close>

text \<open>
  The program starts three threads on one routine, \<^verbatim>\<open>worker(int id)\<close>, and joins them.
  The routine computes nothing but effects: two readings of
  \<^verbatim>\<open>std::chrono::high_resolution_clock\<close>, insertions into \<^verbatim>\<open>std::cout\<close>, calls of
  \<^verbatim>\<open>std::this_thread::yield\<close> and of \<^verbatim>\<open>std::this_thread::sleep_for\<close>. An effect is an
  \<open>action\<close>; the state a routine passes along is the sequence of the actions performed so
  far, oldest first. Each \<^verbatim>\<open><<\<close> of the source is one \<open>Write\<close>: the source inserts a line
  into the stream in several pieces.
\<close>

datatype action =
    Now int          \<comment> \<open>a reading of the clock, in ticks of the clock's period\<close>
  | Write string     \<comment> \<open>one insertion into \<^verbatim>\<open>std::cout\<close>\<close>
  | Yield            \<comment> \<open>\<^verbatim>\<open>std::this_thread::yield()\<close>\<close>
  | Sleep_for nat    \<comment> \<open>\<^verbatim>\<open>std::this_thread::sleep_for\<close>, the argument in milliseconds\<close>

type_synonym world = "action list"

definition clock_now :: "int \<Rightarrow> world \<Rightarrow> world" where
  "clock_now t w = w @ [Now t]"

definition cout_write :: "string \<Rightarrow> world \<Rightarrow> world" where
  "cout_write s w = w @ [Write s]"

definition this_thread_yield :: "world \<Rightarrow> world" where
  "this_thread_yield w = w @ [Yield]"

definition this_thread_sleep_for :: "nat \<Rightarrow> world \<Rightarrow> world" where
  "this_thread_sleep_for ms w = w @ [Sleep_for ms]"

subsection \<open>Decimal output of integers\<close>

text \<open>
  \<^verbatim>\<open>operator<<\<close> on an \<^verbatim>\<open>int\<close> and on the \<^verbatim>\<open>long long\<close> of \<^verbatim>\<open>duration.count()\<close> writes the
  decimal numeral, with a leading minus sign for a negative value (the stream's flags are
  the defaults: the source never changes them).
\<close>

definition newline :: char where
  "newline = CHR 0x0A"

definition digit_char :: "nat \<Rightarrow> char" where
  "digit_char d = ''0123456789'' ! d"

function show_nat :: "nat \<Rightarrow> string" where
  "show_nat n = (if n < 10 then [digit_char n] else show_nat (n div 10) @ [digit_char (n mod 10)])"
  by pat_completeness auto
termination
  by (relation "measure (\<lambda>n. n)") auto

declare show_nat.simps [simp del]

definition show_int :: "int \<Rightarrow> string" where
  "show_int i = (if i < 0 then CHR ''-'' # show_nat (nat (- i)) else show_nat (nat i))"

subsection \<open>The clock's period and \<^verbatim>\<open>duration_cast\<close>\<close>

text \<open>
  The tick period of \<^verbatim>\<open>high_resolution_clock\<close> is fixed by the C++ implementation, not by
  the repository, so it is a parameter: a tick lasts \<open>num / den\<close> seconds. The three
  common implementations use nanoseconds, \<open>nano\<close> below.

  \<^verbatim>\<open>duration_cast<milliseconds>\<close> multiplies and divides the tick count by the reduced
  ratio of the two periods, in integer arithmetic; C++ integer division truncates towards
  zero, \<open>cpp_div\<close> below. The tick counts are signed 64-bit integers in the
  implementations; an overflow of \<^verbatim>\<open>ending - starting\<close> is undefined behaviour and needs
  readings more than 292 years apart at a nanosecond period. The model computes on \<open>int\<close>
  and so describes every execution whose behaviour is defined; \<open>fits_int64\<close> is the range
  of the machine integers, for the lemma that the nanosecond clock never leaves it.
\<close>

record period =
  num :: int
  den :: int

definition valid_period :: "period \<Rightarrow> bool" where
  "valid_period p = (0 < num p \<and> 0 < den p)"

definition nano :: period where
  "nano = \<lparr>num = 1, den = 1000000000\<rparr>"

definition cpp_div :: "int \<Rightarrow> int \<Rightarrow> int" where
  "cpp_div a b = sgn a * sgn b * (\<bar>a\<bar> div \<bar>b\<bar>)"

definition cf_num :: "period \<Rightarrow> int" where
  "cf_num p = (num p * 1000) div gcd (num p * 1000) (den p)"

definition cf_den :: "period \<Rightarrow> int" where
  "cf_den p = den p div gcd (num p * 1000) (den p)"

definition duration_cast_milliseconds :: "period \<Rightarrow> int \<Rightarrow> int" where
  "duration_cast_milliseconds p d =
     (if cf_num p = 1 \<and> cf_den p = 1 then d
      else if cf_num p = 1 then cpp_div d (cf_den p)
      else if cf_den p = 1 then d * cf_num p
      else cpp_div (d * cf_num p) (cf_den p))"

definition fits_int64 :: "int \<Rightarrow> bool" where
  "fits_int64 x = (- (2 ^ 63) \<le> x \<and> x < 2 ^ 63)"

subsection \<open>The routine\<close>

text \<open>
  The \<^verbatim>\<open>for\<close> loop of the source, with its counter \<open>i\<close>: the body runs while \<open>i < 10\<close>
  and the counter goes up by one.
\<close>

function worker_loop :: "int \<Rightarrow> int \<Rightarrow> world \<Rightarrow> world" where
  "worker_loop id' i w =
     (if i < 10 then
        worker_loop id' (i + 1)
          (this_thread_sleep_for 100
            (if id' = 1 then
               this_thread_yield
                 (cout_write ('' is yielding...'' @ [newline])
                   (cout_write (show_int id') (cout_write ''Thread '' w)))
             else w))
      else w)"
  by pat_completeness auto
termination
  by (relation "measure (\<lambda>(id', i, w). nat (10 - i))") auto

declare worker_loop.simps [simp del]

text \<open>
  The routine itself. The two readings of the clock are what the environment returns to
  the two calls of \<^verbatim>\<open>now()\<close>; they are the routine's only inputs besides \<open>id\<close>.
\<close>

definition worker :: "period \<Rightarrow> int \<Rightarrow> int \<Rightarrow> int \<Rightarrow> world \<Rightarrow> world" where
  "worker p id' starting ending w =
     (let w1 = clock_now starting w;
          w2 = worker_loop id' 0 w1;
          w3 = clock_now ending w2;
          duration = duration_cast_milliseconds p (ending - starting)
      in cout_write ('' milliseconds'' @ [newline])
           (cout_write (show_int duration)
             (cout_write '' finished execution in ''
               (cout_write (show_int id') (cout_write ''Thread '' w3)))))"

subsection \<open>What a task has written\<close>

text \<open>
  The characters a sequence of actions inserts into the stream, in order, and the lines
  they form: a line ends at a newline character, and characters after the last newline
  form an unfinished last line.
\<close>

fun written :: "action \<Rightarrow> string" where
  "written (Write s) = s"
| "written _ = []"

definition cout_of :: "action list \<Rightarrow> string" where
  "cout_of as = concat (map written as)"

fun split_lines :: "string \<Rightarrow> string \<Rightarrow> string list" where
  "split_lines cur [] = (if cur = [] then [] else [cur])"
| "split_lines cur (c # cs) =
     (if c = newline then cur # split_lines [] cs else split_lines (cur @ [c]) cs)"

definition lines_of :: "string \<Rightarrow> string list" where
  "lines_of s = split_lines [] s"

text \<open>The two lines of the specification.\<close>

definition yield_notice :: string where
  "yield_notice = ''Thread 1 is yielding...''"

definition summary_line :: "int \<Rightarrow> int \<Rightarrow> string" where
  "summary_line id' n =
     ''Thread '' @ show_int id' @ '' finished execution in '' @ show_int n @ '' milliseconds''"

text \<open>The actions of one iteration of the loop, as the specification lists them.\<close>

definition yield_notice_writes :: "action list" where
  "yield_notice_writes = [Write ''Thread '', Write ''1'', Write ('' is yielding...'' @ [newline])]"

definition iteration :: "int \<Rightarrow> action list" where
  "iteration id' = (if id' = 1 then yield_notice_writes @ [Yield] else []) @ [Sleep_for 100]"

text \<open>The five insertions of the last statement of the routine, and what makes a line a summary line.\<close>

definition summary_writes :: "int \<Rightarrow> int \<Rightarrow> action list" where
  "summary_writes id' n =
     [Write ''Thread '', Write (show_int id'), Write '' finished execution in '',
      Write (show_int n), Write ('' milliseconds'' @ [newline])]"

definition is_summary_line :: "string \<Rightarrow> bool" where
  "is_summary_line l = (\<exists>i n. l = summary_line i n)"

text \<open>
  The elapsed time in milliseconds as a real number, before any rounding: \<open>d\<close> ticks of
  \<open>num / den\<close> seconds each.
\<close>

definition exact_milliseconds :: "period \<Rightarrow> int \<Rightarrow> real" where
  "exact_milliseconds p d = of_int d * of_int (num p) * 1000 / of_int (den p)"

section \<open>The driver and the three threads\<close>

text \<open>
  \<^verbatim>\<open>main\<close> declares three \<^verbatim>\<open>std::thread\<close> objects, \<^verbatim>\<open>t1\<close>, \<^verbatim>\<open>t2\<close> and \<^verbatim>\<open>t3\<close>, joins
  them and returns. Its body is the list \<open>main\<close> of its seven statements, in the order of
  the source.
\<close>

datatype thread = T1 | T2 | T3

datatype statement =
    Start thread int
  | Join thread
  | Return int

definition main :: "statement list" where
  "main = [Start T1 1, Start T2 2, Start T3 3, Join T1, Join T2, Join T3, Return 0]"

text \<open>
  The process runs until \<^verbatim>\<open>main\<close> returns, or until \<^verbatim>\<open>std::terminate\<close> ends it: the
  constructor of \<^verbatim>\<open>std::thread\<close> throws \<^verbatim>\<open>std::system_error\<close> when the thread cannot be
  started, and \<^verbatim>\<open>main\<close> has no handler. The history lists what has happened, oldest
  first, each event with who did it.
\<close>

datatype status = Running | Exited int | Terminated

datatype event =
    Main_did statement
  | Thread_did thread action
  | Start_failed thread

text \<open>
  The environment gives the period of the clock and, for each thread, the two readings
  that the clock returns to the thread's two calls of \<^verbatim>\<open>now()\<close>.
\<close>

record environment =
  clock_period :: period
  readings :: "thread \<Rightarrow> int \<times> int"

text \<open>
  A state of the process: the statements \<^verbatim>\<open>main\<close> has not run yet; for each thread
  \<open>None\<close> before it is started and afterwards the actions it has still to perform
  (\<open>Some []\<close>: the routine has returned); the history; the status.
\<close>

record process =
  todo :: "statement list"
  threads :: "thread \<Rightarrow> action list option"
  history :: "event list"
  status :: status

definition initial :: process where
  "initial = \<lparr>todo = main, threads = (\<lambda>t. None), history = [], status = Running\<rparr>"

text \<open>
  The scheduler chooses which thread of control moves next: \<^verbatim>\<open>main\<close>, or one of the three
  threads. \<open>Start_fails\<close> is the choice of the environment that the thread \<^verbatim>\<open>main\<close> is about
  to start cannot be created.
\<close>

datatype choice = Main_step | Start_fails | Thread_step thread

text \<open>
  A started thread runs \<^verbatim>\<open>worker(id)\<close> from the beginning, with the readings the
  environment holds for it.
\<close>

definition thread_body :: "environment \<Rightarrow> thread \<Rightarrow> int \<Rightarrow> action list" where
  "thread_body env t i =
     worker (clock_period env) i (fst (readings env t)) (snd (readings env t)) []"

text \<open>
  One statement of \<^verbatim>\<open>main\<close>. \<^verbatim>\<open>t.join()\<close> blocks until the thread has completed: the step
  is possible only when the thread has no action left. \<^verbatim>\<open>return n\<close> ends the process with
  exit code \<open>n\<close>.
\<close>

definition main_step :: "environment \<Rightarrow> process \<Rightarrow> process option" where
  "main_step env s =
     (case todo s of
        [] \<Rightarrow> None
      | Start t i # rest \<Rightarrow>
          Some (s\<lparr>todo := rest,
                  threads := (threads s)(t := Some (thread_body env t i)),
                  history := history s @ [Main_did (Start t i)]\<rparr>)
      | Join t # rest \<Rightarrow>
          (case threads s t of
             Some [] \<Rightarrow> Some (s\<lparr>todo := rest, history := history s @ [Main_did (Join t)]\<rparr>)
           | _ \<Rightarrow> None)
      | Return n # rest \<Rightarrow>
          Some (s\<lparr>todo := rest, status := Exited n,
                  history := history s @ [Main_did (Return n)]\<rparr>))"

text \<open>
  The constructor throws: nothing catches the exception and \<^verbatim>\<open>std::terminate\<close> ends the
  process, whatever the threads already started were doing.
\<close>

definition start_fails :: "process \<Rightarrow> process option" where
  "start_fails s =
     (case todo s of
        Start t i # rest \<Rightarrow>
          Some (s\<lparr>status := Terminated, history := history s @ [Start_failed t]\<rparr>)
      | _ \<Rightarrow> None)"

text \<open>A started thread performs its next action.\<close>

definition thread_step :: "thread \<Rightarrow> process \<Rightarrow> process option" where
  "thread_step t s =
     (case threads s t of
        Some (a # as) \<Rightarrow>
          Some (s\<lparr>threads := (threads s)(t := Some as),
                  history := history s @ [Thread_did t a]\<rparr>)
      | _ \<Rightarrow> None)"

text \<open>A step of the process; \<open>None\<close> when the choice is not possible in the state.\<close>

definition step :: "environment \<Rightarrow> choice \<Rightarrow> process \<Rightarrow> process option" where
  "step env c s =
     (if status s \<noteq> Running then None
      else case c of
        Main_step \<Rightarrow> main_step env s
      | Start_fails \<Rightarrow> start_fails s
      | Thread_step t \<Rightarrow> thread_step t s)"

fun run :: "environment \<Rightarrow> choice list \<Rightarrow> process \<Rightarrow> process option" where
  "run env [] s = Some s"
| "run env (c # cs) s = (case step env c s of None \<Rightarrow> None | Some s' \<Rightarrow> run env cs s')"

subsection \<open>Reading a history\<close>

text \<open>
  The statements \<^verbatim>\<open>main\<close> has run, the actions a thread has performed, and the lines a
  thread has written, each in the order of the history.
\<close>

fun statement_of :: "event \<Rightarrow> statement list" where
  "statement_of (Main_did st) = [st]"
| "statement_of _ = []"

definition main_done :: "event list \<Rightarrow> statement list" where
  "main_done h = concat (map statement_of h)"

fun action_of :: "thread \<Rightarrow> event \<Rightarrow> action list" where
  "action_of t (Thread_did u a) = (if u = t then [a] else [])"
| "action_of t _ = []"

definition thread_actions :: "thread \<Rightarrow> event list \<Rightarrow> action list" where
  "thread_actions t h = concat (map (action_of t) h)"

definition thread_lines :: "thread \<Rightarrow> process \<Rightarrow> string list" where
  "thread_lines t s = lines_of (cout_of (thread_actions t (history s)))"

text \<open>
  The argument \<^verbatim>\<open>main\<close> passes to each thread, the whole routine of a thread, and the
  number of milliseconds its summary reports.
\<close>

fun thread_id :: "thread \<Rightarrow> int" where
  "thread_id T1 = 1"
| "thread_id T2 = 2"
| "thread_id T3 = 3"

definition program :: "environment \<Rightarrow> thread \<Rightarrow> action list" where
  "program env t = thread_body env t (thread_id t)"

definition elapsed :: "environment \<Rightarrow> thread \<Rightarrow> int" where
  "elapsed env t =
     duration_cast_milliseconds (clock_period env) (snd (readings env t) - fst (readings env t))"

text \<open>
  What holds in every state the process can reach: \<^verbatim>\<open>main\<close> has run a prefix of its
  statements; a thread that is not started has done nothing and its start is still to
  come, a started thread has performed a prefix of its routine; a thread whose join is
  done has completed; and the process has exited only with code 0, by the return
  statement, with nothing left to run.
\<close>

definition invariant :: "environment \<Rightarrow> process \<Rightarrow> bool" where
  "invariant env s =
     (main_done (history s) @ todo s = main
      \<and> (\<forall>t. case threads s t of
             None \<Rightarrow> thread_actions t (history s) = [] \<and> Start t (thread_id t) \<in> set (todo s)
           | Some rest \<Rightarrow> thread_actions t (history s) @ rest = program env t
                \<and> Start t (thread_id t) \<notin> set (todo s))
      \<and> (\<forall>t. Join t \<in> set (todo s) \<or> threads s t = Some [])
      \<and> (case status s of
            Running \<Rightarrow> todo s \<noteq> []
          | Exited n \<Rightarrow> n = 0 \<and> todo s = [] \<and> history s \<noteq> []
              \<and> last (history s) = Main_did (Return 0)
          | Terminated \<Rightarrow> True))"

text \<open>The number of steps still to take: it bounds the length of a run.\<close>

definition waiting :: "environment \<Rightarrow> process \<Rightarrow> thread \<Rightarrow> nat" where
  "waiting env s t = (case threads s t of None \<Rightarrow> length (program env t) | Some rest \<Rightarrow> length rest)"

definition remaining :: "environment \<Rightarrow> process \<Rightarrow> nat" where
  "remaining env s = length (todo s) + waiting env s T1 + waiting env s T2 + waiting env s T3"

text \<open>A line that announces a yield, for any thread id.\<close>

definition is_yield_notice :: "string \<Rightarrow> bool" where
  "is_yield_notice l = (\<exists>i. l = ''Thread '' @ show_int i @ '' is yielding...'')"

subsection \<open>Two schedules and two environments\<close>

text \<open>
  Two complete runs: \<^verbatim>\<open>main\<close> starts the three threads, the threads run to completion one
  after the other, in the order of their start or in the opposite order, and \<^verbatim>\<open>main\<close>
  joins them and returns.
\<close>

definition run_to_completion :: "environment \<Rightarrow> thread \<Rightarrow> choice list" where
  "run_to_completion env t = replicate (length (program env t)) (Thread_step t)"

definition all_started_first :: "environment \<Rightarrow> choice list" where
  "all_started_first env =
     [Main_step, Main_step, Main_step]
       @ run_to_completion env T1 @ run_to_completion env T2 @ run_to_completion env T3
       @ [Main_step, Main_step, Main_step, Main_step]"

definition last_started_first :: "environment \<Rightarrow> choice list" where
  "last_started_first env =
     [Main_step, Main_step, Main_step]
       @ run_to_completion env T3 @ run_to_completion env T2 @ run_to_completion env T1
       @ [Main_step, Main_step, Main_step, Main_step]"

definition example_environment :: environment where
  "example_environment =
     \<lparr>clock_period = nano,
      readings = (\<lambda>t. case t of
          T1 \<Rightarrow> (5000, 1001905000)
        | T2 \<Rightarrow> (61000, 1000861000)
        | T3 \<Rightarrow> (98000, 1000998000))\<rparr>"

definition other_environment :: environment where
  "other_environment =
     \<lparr>clock_period = nano,
      readings = (\<lambda>t. case t of
          T1 \<Rightarrow> (5000, 1001905000)
        | T2 \<Rightarrow> (7000, 1203007000)
        | T3 \<Rightarrow> (9000, 1000009000))\<rparr>"

section \<open>The worker among other tasks\<close>

text \<open>
  The routine once more, statement by statement, this time in the middle of the process:
  it runs against the state all tasks share, the characters in \<^verbatim>\<open>std::cout\<close> and the
  current reading of the clock. Before each effect of the task the rest of the world has
  moved: the other tasks have written to the stream and time has passed. An
  \<open>interference\<close> gives this change for the task's effect number \<open>k\<close>; it is any function
  on the shared state. \<^verbatim>\<open>now()\<close> returns the clock of the shared state, and an insertion
  appends to the shared stream. The task also keeps the list of its own actions.
\<close>

record shared =
  stream :: string
  clock :: int

type_synonym interference = "nat \<Rightarrow> shared \<Rightarrow> shared"

record task =
  around :: shared
  effects :: nat
  performed :: "action list"

text \<open>What the rest of the world does before the task's next effect.\<close>

definition interfered :: "interference \<Rightarrow> task \<Rightarrow> task" where
  "interfered env \<sigma> = \<sigma>\<lparr>around := env (effects \<sigma>) (around \<sigma>), effects := Suc (effects \<sigma>)\<rparr>"

text \<open>The four operations of the routine on the shared state.\<close>

definition shared_now :: "interference \<Rightarrow> task \<Rightarrow> int \<times> task" where
  "shared_now env \<sigma> =
     (let \<sigma>' = interfered env \<sigma>; t = clock (around \<sigma>')
      in (t, \<sigma>'\<lparr>performed := performed \<sigma>' @ [Now t]\<rparr>))"

definition shared_write :: "interference \<Rightarrow> string \<Rightarrow> task \<Rightarrow> task" where
  "shared_write env s \<sigma> =
     (let \<sigma>' = interfered env \<sigma>
      in \<sigma>'\<lparr>around := (around \<sigma>')\<lparr>stream := stream (around \<sigma>') @ s\<rparr>,
            performed := performed \<sigma>' @ [Write s]\<rparr>)"

definition shared_yield :: "interference \<Rightarrow> task \<Rightarrow> task" where
  "shared_yield env \<sigma> =
     (let \<sigma>' = interfered env \<sigma> in \<sigma>'\<lparr>performed := performed \<sigma>' @ [Yield]\<rparr>)"

definition shared_sleep_for :: "interference \<Rightarrow> nat \<Rightarrow> task \<Rightarrow> task" where
  "shared_sleep_for env ms \<sigma> =
     (let \<sigma>' = interfered env \<sigma> in \<sigma>'\<lparr>performed := performed \<sigma>' @ [Sleep_for ms]\<rparr>)"

text \<open>The loop and the routine, statement for statement as \<open>worker_loop\<close> and \<open>worker\<close>.\<close>

function worker_loop_shared :: "interference \<Rightarrow> int \<Rightarrow> int \<Rightarrow> task \<Rightarrow> task" where
  "worker_loop_shared env id' i \<sigma> =
     (if i < 10 then
        worker_loop_shared env id' (i + 1)
          (shared_sleep_for env 100
            (if id' = 1 then
               shared_yield env
                 (shared_write env ('' is yielding...'' @ [newline])
                   (shared_write env (show_int id') (shared_write env ''Thread '' \<sigma>)))
             else \<sigma>))
      else \<sigma>)"
  by pat_completeness auto
termination
  by (relation "measure (\<lambda>(env, id', i, \<sigma>). nat (10 - i))") auto

declare worker_loop_shared.simps [simp del]

definition worker_shared :: "period \<Rightarrow> interference \<Rightarrow> int \<Rightarrow> task \<Rightarrow> task" where
  "worker_shared p env id' \<sigma> =
     (let (starting, \<sigma>1) = shared_now env \<sigma>;
          \<sigma>2 = worker_loop_shared env id' 0 \<sigma>1;
          (ending, \<sigma>3) = shared_now env \<sigma>2;
          duration = duration_cast_milliseconds p (ending - starting)
      in shared_write env ('' milliseconds'' @ [newline])
           (shared_write env (show_int duration)
             (shared_write env '' finished execution in ''
               (shared_write env (show_int id') (shared_write env ''Thread '' \<sigma>3)))))"

text \<open>
  The actions the routine itself adds in a run, the readings among a list of actions, and
  the two readings the routine takes in a run.
\<close>

definition own_actions :: "period \<Rightarrow> interference \<Rightarrow> int \<Rightarrow> task \<Rightarrow> action list" where
  "own_actions p env id' \<sigma> = drop (length (performed \<sigma>)) (performed (worker_shared p env id' \<sigma>))"

fun reading_of :: "action \<Rightarrow> int list" where
  "reading_of (Now t) = [t]"
| "reading_of _ = []"

definition readings_of :: "action list \<Rightarrow> int list" where
  "readings_of as = concat (map reading_of as)"

definition first_reading :: "interference \<Rightarrow> task \<Rightarrow> int" where
  "first_reading env \<sigma> = fst (shared_now env \<sigma>)"

definition second_reading :: "interference \<Rightarrow> int \<Rightarrow> task \<Rightarrow> int" where
  "second_reading env id' \<sigma> =
     fst (shared_now env (worker_loop_shared env id' 0 (snd (shared_now env \<sigma>))))"

text \<open>
  Two runs to compare: nobody else writes and the stream starts empty; or another task
  writes a line before every effect and the stream already holds a line. The clock shows
  the same readings in both, those of thread 1 in \<open>example_environment\<close>.
\<close>

definition example_clock :: "nat \<Rightarrow> int" where
  "example_clock k =
     (if k < 51 then 5000 + 19000000 * int k else 1001905000 + 100 * int (k - 51))"

definition quiet_interference :: interference where
  "quiet_interference k sh = sh\<lparr>clock := example_clock k\<rparr>"

definition busy_interference :: interference where
  "busy_interference k sh =
     \<lparr>stream = stream sh @ ''Thread 3 finished execution in 1000 milliseconds'' @ [newline],
      clock = example_clock k\<rparr>"

definition fresh_task :: task where
  "fresh_task = \<lparr>around = \<lparr>stream = [], clock = 0\<rparr>, effects = 0, performed = []\<rparr>"

definition later_task :: task where
  "later_task =
     \<lparr>around = \<lparr>stream = ''Thread 1 is yielding...'' @ [newline], clock = 4000\<rparr>,
      effects = 0, performed = []\<rparr>"

section \<open>Properties of the worker routine\<close>

lemma show_int_1: "show_int 1 = ''1''"
  by (simp add: show_int_def show_nat.simps digit_char_def)

lemma loop_body_eq:
  "this_thread_sleep_for 100
     (if id' = 1 then
        this_thread_yield
          (cout_write ('' is yielding...'' @ [newline])
            (cout_write (show_int id') (cout_write ''Thread '' w)))
      else w) = w @ iteration id'"
  by (simp add: iteration_def yield_notice_writes_def this_thread_sleep_for_def
      this_thread_yield_def cout_write_def show_int_1)

lemma worker_loop_step:
  "i < 10 \<Longrightarrow> worker_loop id' i w = worker_loop id' (i + 1) (w @ iteration id')"
  by (subst worker_loop.simps) (simp only: loop_body_eq if_True)

lemma worker_loop_done: "\<not> i < 10 \<Longrightarrow> worker_loop id' i w = w"
  by (subst worker_loop.simps) simp

lemma worker_loop_closed:
  "worker_loop id' i w = w @ concat (replicate (nat (10 - i)) (iteration id'))"
proof (induction id' i w rule: worker_loop.induct)
  case (1 id' i w)
  show ?case
  proof (cases "i < 10")
    case True
    then have n: "nat (10 - i) = Suc (nat (10 - (i + 1)))"
      by simp
    have "worker_loop id' i w = worker_loop id' (i + 1) (w @ iteration id')"
      using True by (rule worker_loop_step)
    also have "\<dots> = (w @ iteration id') @ concat (replicate (nat (10 - (i + 1))) (iteration id'))"
      using "1.IH" [OF True] by (simp only: loop_body_eq)
    finally show ?thesis
      by (simp only: n replicate_Suc concat.simps append_assoc)
  next
    case False
    then show ?thesis
      by (simp add: worker_loop_done)
  qed
qed

subsection \<open>The routine in closed form, and the lines it writes\<close>

lemma worker_closed:
  "worker p id' starting ending w =
     w @ Now starting # concat (replicate 10 (iteration id'))
       @ Now ending # summary_writes id' (duration_cast_milliseconds p (ending - starting))"
  by (simp add: worker_def Let_def worker_loop_closed clock_now_def cout_write_def
      summary_writes_def)

lemma cout_of_append: "cout_of (xs @ ys) = cout_of xs @ cout_of ys"
  by (simp add: cout_of_def)

lemma cout_of_Cons: "cout_of (a # xs) = written a @ cout_of xs"
  by (simp add: cout_of_def)

lemma cout_of_Nil: "cout_of [] = []"
  by (simp add: cout_of_def)

lemma cout_of_replicate:
  "cout_of (concat (replicate n xs)) = concat (replicate n (cout_of xs))"
  by (induction n) (simp_all add: cout_of_append cout_of_Nil)

lemma cout_of_iteration:
  "cout_of (iteration id') = (if id' = 1 then yield_notice @ [newline] else [])"
  by (simp add: iteration_def yield_notice_writes_def cout_of_def yield_notice_def)

lemma cout_of_summary_writes:
  "cout_of (summary_writes id' n) = summary_line id' n @ [newline]"
  by (simp add: summary_writes_def cout_of_def summary_line_def)

lemma digit_char_not_newline: "d < 10 \<Longrightarrow> digit_char d \<noteq> newline"
proof -
  assume "d < 10"
  then have "digit_char d \<in> set ''0123456789''"
    unfolding digit_char_def by (intro nth_mem) simp
  then show ?thesis
    by (auto simp: newline_def)
qed

lemma show_nat_no_newline: "newline \<notin> set (show_nat n)"
proof (induction n rule: show_nat.induct)
  case (1 n)
  show ?case
  proof (cases "n < 10")
    case True
    then show ?thesis
      using digit_char_not_newline [of n] by (subst show_nat.simps) auto
  next
    case False
    then show ?thesis
      using "1.IH" digit_char_not_newline [of "n mod 10"]
      by (subst show_nat.simps) auto
  qed
qed

lemma show_int_no_newline: "newline \<notin> set (show_int i)"
  using show_nat_no_newline [of "nat i"] show_nat_no_newline [of "nat (- i)"]
  by (simp add: show_int_def newline_def)

lemma show_nat_nonempty: "show_nat n \<noteq> []"
  by (subst show_nat.simps) simp

lemma show_int_nonempty: "show_int i \<noteq> []"
  by (simp add: show_int_def show_nat_nonempty)

lemma split_lines_line:
  "newline \<notin> set l \<Longrightarrow> split_lines cur (l @ newline # rest) = (cur @ l) # split_lines [] rest"
  by (induction l arbitrary: cur) auto

lemma lines_of_line:
  "newline \<notin> set l \<Longrightarrow> lines_of (l @ newline # rest) = l # lines_of rest"
  by (simp add: lines_of_def split_lines_line)

lemma lines_of_Nil: "lines_of [] = []"
  by (simp add: lines_of_def)

lemma lines_of_replicate:
  "newline \<notin> set l \<Longrightarrow>
   lines_of (concat (replicate n (l @ [newline])) @ rest) = replicate n l @ lines_of rest"
  by (induction n) (simp_all add: lines_of_line)

lemma yield_notice_no_newline: "newline \<notin> set yield_notice"
  by (simp add: yield_notice_def newline_def)

lemma summary_line_no_newline: "newline \<notin> set (summary_line i n)"
  by (simp add: summary_line_def show_int_no_newline) (simp add: newline_def)

lemma lines_summary: "lines_of (summary_line i n @ [newline]) = [summary_line i n]"
  using lines_of_line [OF summary_line_no_newline, of i n "[]"]
  by (simp add: lines_of_Nil)

lemma lines_notices_summary:
  "lines_of (concat (replicate k (yield_notice @ [newline])) @ summary_line i n @ [newline])
     = replicate k yield_notice @ [summary_line i n]"
  using lines_of_replicate [OF yield_notice_no_newline, of k "summary_line i n @ [newline]"]
  by (simp only: lines_summary)

lemma cout_of_worker:
  "cout_of (worker p id' starting ending []) =
     concat (replicate 10 (cout_of (iteration id')))
       @ summary_line id' (duration_cast_milliseconds p (ending - starting)) @ [newline]"
  by (simp add: worker_closed cout_of_Cons cout_of_append cout_of_replicate
      cout_of_summary_writes)

lemma lines_of_worker:
  "lines_of (cout_of (worker p id' starting ending [])) =
     (if id' = 1 then replicate 10 yield_notice else [])
       @ [summary_line id' (duration_cast_milliseconds p (ending - starting))]"
  by (simp add: cout_of_worker cout_of_iteration lines_notices_summary lines_summary)

lemma yield_notice_not_summary: "\<not> is_summary_line yield_notice"
proof
  assume "is_summary_line yield_notice"
  then obtain i n where "yield_notice = summary_line i n"
    by (auto simp: is_summary_line_def)
  then have "length yield_notice = length (summary_line i n)"
    by simp
  then show False
    by (simp add: yield_notice_def summary_line_def)
qed

lemma summary_is_summary: "is_summary_line (summary_line i n)"
  by (auto simp: is_summary_line_def)

subsection \<open>The conversion to milliseconds\<close>

lemma cpp_div_pos: "0 < b \<Longrightarrow> cpp_div a b = (if 0 \<le> a then a div b else - ((- a) div b))"
  by (simp add: cpp_div_def sgn_if)

lemma cpp_div_one: "cpp_div a 1 = a"
  by (simp add: cpp_div_def sgn_if)

lemma cpp_div_cancel:
  assumes "0 < g" "0 < b"
  shows "cpp_div (a * g) (b * g) = cpp_div a b"
proof -
  have "0 \<le> a * g \<longleftrightarrow> 0 \<le> a"
    using assms(1) by (simp add: zero_le_mult_iff)
  moreover have "0 < b * g"
    using assms by simp
  moreover have "(- (a * g)) div (b * g) = (- a) div b"
    using assms(1) by (metis div_mult_mult2 less_irrefl minus_mult_left)
  moreover have "(a * g) div (b * g) = a div b"
    using assms(1) by simp
  ultimately show ?thesis
    using assms(2) by (simp add: cpp_div_pos)
qed

lemma conversion_factor:
  assumes "valid_period p"
  shows "num p * 1000 = cf_num p * gcd (num p * 1000) (den p)"
    and "den p = cf_den p * gcd (num p * 1000) (den p)"
    and "0 < gcd (num p * 1000) (den p)"
    and "0 < cf_num p" and "0 < cf_den p"
proof -
  let ?g = "gcd (num p * 1000) (den p)"
  show g: "0 < ?g"
    using assms by (simp add: valid_period_def)
  show n: "num p * 1000 = cf_num p * ?g"
    by (simp add: cf_num_def)
  show d: "den p = cf_den p * ?g"
    by (simp add: cf_den_def)
  show "0 < cf_num p"
    using assms g n by (metis mult_pos_pos valid_period_def zero_less_mult_pos2 zero_less_numeral)
  show "0 < cf_den p"
    using assms g d by (metis valid_period_def zero_less_mult_pos2)
qed

lemma duration_cast_as_division:
  assumes "valid_period p"
  shows "duration_cast_milliseconds p d = cpp_div (d * (num p * 1000)) (den p)"
proof -
  let ?g = "gcd (num p * 1000) (den p)"
  note cf = conversion_factor [OF assms]
  have "duration_cast_milliseconds p d = cpp_div (d * cf_num p) (cf_den p)"
    by (simp add: duration_cast_milliseconds_def cpp_div_one)
  also have "\<dots> = cpp_div ((d * cf_num p) * ?g) (cf_den p * ?g)"
    using cf(3,5) by (simp only: cpp_div_cancel)
  also have "(d * cf_num p) * ?g = d * (num p * 1000)"
    using cf(1) by (simp only: mult.assoc)
  also have "cf_den p * ?g = den p"
    using cf(2) by simp
  finally show ?thesis .
qed

lemma exact_milliseconds_quotient:
  "exact_milliseconds p d = of_int (d * (num p * 1000)) / of_int (den p)"
  by (simp add: exact_milliseconds_def)

lemma duration_cast_truncates:
  assumes "valid_period p"
  shows "duration_cast_milliseconds p d =
     (if 0 \<le> d then \<lfloor>exact_milliseconds p d\<rfloor> else \<lceil>exact_milliseconds p d\<rceil>)"
proof -
  let ?a = "d * (num p * 1000)"
  have np: "0 < num p * 1000" and dp: "0 < den p"
    using assms by (simp_all add: valid_period_def)
  have sign: "0 \<le> ?a \<longleftrightarrow> 0 \<le> d"
    using np by (simp add: zero_le_mult_iff)
  have fl: "\<lfloor>exact_milliseconds p d\<rfloor> = ?a div den p"
    unfolding exact_milliseconds_quotient by (rule floor_divide_of_int_eq)
  have "\<lceil>exact_milliseconds p d\<rceil> = - \<lfloor>of_int (- ?a) / (of_int (den p) :: real)\<rfloor>"
    unfolding exact_milliseconds_quotient ceiling_def by simp
  then have ce: "\<lceil>exact_milliseconds p d\<rceil> = - ((- ?a) div den p)"
    by (simp only: floor_divide_of_int_eq)
  show ?thesis
    using sign by (simp only: duration_cast_as_division [OF assms] cpp_div_pos [OF dp] fl ce)
qed

lemma nano_valid: "valid_period nano"
  by (simp add: valid_period_def nano_def)

lemma duration_cast_nonneg:
  assumes "valid_period p" "0 \<le> d"
  shows "0 \<le> duration_cast_milliseconds p d"
  using assms by (simp add: duration_cast_as_division cpp_div_pos valid_period_def pos_imp_zdiv_nonneg_iff)

lemma duration_cast_within_one:
  assumes "valid_period p"
  shows "\<bar>of_int (duration_cast_milliseconds p d) - exact_milliseconds p d\<bar> < 1"
  unfolding duration_cast_truncates [OF assms]
  by (cases "0 \<le> d") (simp_all, linarith+)

lemma digit_char_digit: "d < 10 \<Longrightarrow> digit_char d \<in> set ''0123456789''"
  unfolding digit_char_def by (intro nth_mem) simp

lemma show_nat_digits: "set (show_nat n) \<subseteq> set ''0123456789''"
proof (induction n rule: show_nat.induct)
  case (1 n)
  show ?case
  proof (cases "n < 10")
    case True
    then show ?thesis
      using digit_char_digit [of n] by (subst show_nat.simps) simp
  next
    case False
    have "set (show_nat n) = set (show_nat (n div 10)) \<union> {digit_char (n mod 10)}"
      using False by (subst show_nat.simps) simp
    then show ?thesis
      using "1.IH" [OF False] digit_char_digit [of "n mod 10"] by simp
  qed
qed

lemma last_lines_of_worker:
  "last (lines_of (cout_of (worker p id' starting ending []))) =
     summary_line id' (duration_cast_milliseconds p (ending - starting))"
  by (simp add: lines_of_worker)

lemma summary_lines_of_worker:
  "filter is_summary_line (lines_of (cout_of (worker p id' starting ending []))) =
     [summary_line id' (duration_cast_milliseconds p (ending - starting))]"
  by (simp add: lines_of_worker summary_is_summary yield_notice_not_summary)

text \<open>
  With the nanosecond period the cast is one division, and for readings that are not
  negative neither the difference nor the quotient leaves the 64-bit range.
\<close>

lemma nano_cast: "duration_cast_milliseconds nano d = cpp_div d 1000000"
  by (simp add: duration_cast_milliseconds_def cf_num_def cf_den_def nano_def)

lemma cpp_div_magnitude:
  assumes "0 < b"
  shows "\<bar>cpp_div a b\<bar> \<le> \<bar>a\<bar>"
proof -
  have "\<bar>a\<bar> div b \<le> \<bar>a\<bar> div 1"
    using assms by (intro zdiv_mono2) simp_all
  moreover have "0 \<le> \<bar>a\<bar> div b"
    using assms by (simp add: pos_imp_zdiv_nonneg_iff)
  moreover have "\<bar>cpp_div a b\<bar> = \<bar>sgn a\<bar> * \<bar>\<bar>a\<bar> div b\<bar>"
    using assms by (simp add: cpp_div_def abs_mult)
  moreover have "\<bar>sgn a\<bar> * \<bar>\<bar>a\<bar> div b\<bar> \<le> \<bar>\<bar>a\<bar> div b\<bar>"
    by (cases "a = 0") (simp_all add: abs_sgn_eq)
  ultimately show ?thesis
    by simp
qed

lemma within_magnitude:
  fixes c d m :: int
  shows "\<bar>c\<bar> \<le> \<bar>d\<bar> \<Longrightarrow> \<bar>d\<bar> < m \<Longrightarrow> - m \<le> c \<and> c < m"
  by linarith

lemma nano_arithmetic_in_range:
  assumes "0 \<le> starting" "0 \<le> ending" "fits_int64 starting" "fits_int64 ending"
  shows "fits_int64 (ending - starting)"
    and "fits_int64 (duration_cast_milliseconds nano (ending - starting))"
proof -
  have d: "\<bar>ending - starting\<bar> < 2 ^ 63"
    using assms unfolding fits_int64_def by linarith
  then show "fits_int64 (ending - starting)"
    unfolding fits_int64_def by linarith
  have "\<bar>cpp_div (ending - starting) 1000000\<bar> \<le> \<bar>ending - starting\<bar>"
    by (rule cpp_div_magnitude) simp
  then show "fits_int64 (duration_cast_milliseconds nano (ending - starting))"
    unfolding fits_int64_def nano_cast using d by (rule within_magnitude)
qed

text \<open>The sign of the converted duration.\<close>

lemma exact_milliseconds_sign:
  assumes "valid_period p"
  shows "0 \<le> exact_milliseconds p d \<longleftrightarrow> 0 \<le> d"
proof -
  have "0 < real_of_int (num p) * 1000" and "0 < real_of_int (den p)"
    using assms by (simp_all add: valid_period_def)
  then show ?thesis
    unfolding exact_milliseconds_def
    by (simp add: zero_le_divide_iff zero_le_mult_iff mult.assoc)
qed

lemma duration_cast_sign:
  assumes "valid_period p"
  shows "0 \<le> duration_cast_milliseconds p d \<longleftrightarrow> - 1 < exact_milliseconds p d"
proof (cases "0 \<le> d")
  case True
  then have "0 \<le> exact_milliseconds p d"
    using exact_milliseconds_sign [OF assms] by simp
  then show ?thesis
    using True by (simp add: duration_cast_truncates [OF assms])
next
  case False
  then show ?thesis
    by (simp add: duration_cast_truncates [OF assms] zero_le_ceiling)
qed

section \<open>Properties of the process\<close>

lemma all_threads: "(\<forall>t. P t) \<longleftrightarrow> P T1 \<and> P T2 \<and> P T3"
  by (metis thread.exhaust)

lemma main_done_append: "main_done (h @ h') = main_done h @ main_done h'"
  by (simp add: main_done_def)

lemma thread_actions_append: "thread_actions t (h @ h') = thread_actions t h @ thread_actions t h'"
  by (simp add: thread_actions_def)

lemma main_done_single [simp]:
  "main_done [Main_did st] = [st]" "main_done [Thread_did t a] = []" "main_done [Start_failed t] = []"
  "main_done [] = []"
  by (simp_all add: main_done_def)

lemma thread_actions_single [simp]:
  "thread_actions t [Main_did st] = []" "thread_actions t [Start_failed u] = []"
  "thread_actions t [Thread_did u a] = (if u = t then [a] else [])"
  "thread_actions t [] = []"
  by (simp_all add: thread_actions_def)

lemma main_split:
  assumes "pre @ st # rest = main"
  shows "(st = Start T1 1 \<and> rest = [Start T2 2, Start T3 3, Join T1, Join T2, Join T3, Return 0])
    \<or> (st = Start T2 2 \<and> rest = [Start T3 3, Join T1, Join T2, Join T3, Return 0])
    \<or> (st = Start T3 3 \<and> rest = [Join T1, Join T2, Join T3, Return 0])
    \<or> (st = Join T1 \<and> rest = [Join T2, Join T3, Return 0])
    \<or> (st = Join T2 \<and> rest = [Join T3, Return 0])
    \<or> (st = Join T3 \<and> rest = [Return 0])
    \<or> (st = Return 0 \<and> rest = [])"
proof -
  have len: "length pre < 7"
    using arg_cong [OF assms, of length] by (simp add: main_def)
  have st: "st = main ! length pre"
    using assms by (metis nth_append_length)
  have rest: "rest = drop (Suc (length pre)) main"
    using assms by (metis append_eq_conv_conj drop_Suc tl_drop list.sel(3))
  from len consider "length pre = 0" | "length pre = 1" | "length pre = 2" | "length pre = 3"
    | "length pre = 4" | "length pre = 5" | "length pre = 6"
    by linarith
  then show ?thesis
    by cases (simp_all add: st rest main_def)
qed

lemma invariant_initial: "invariant env initial"
  by (simp add: invariant_def initial_def main_def all_threads)

lemma start_facts:
  assumes "pre @ Start t i # rest = main"
  shows "i = thread_id t" and "Start t i \<notin> set rest" and "Join t \<in> set rest"
  using main_split [OF assms] by auto

lemma join_facts:
  assumes "pre @ Join t # rest = main"
  shows "Join t \<notin> set rest" and "rest \<noteq> []" and "Start u j \<notin> set rest"
  using main_split [OF assms] by auto

lemma return_facts:
  assumes "pre @ Return n # rest = main"
  shows "n = 0" and "rest = []"
  using main_split [OF assms] by auto

lemma main_step_invariant:
  assumes inv: "invariant env s" and run: "status s = Running" and st: "main_step env s = Some s'"
  shows "invariant env s'"
proof -
  obtain x rest where todo: "todo s = x # rest"
    using st by (cases "todo s") (simp_all add: main_step_def)
  have split: "main_done (history s) @ x # rest = main"
    using inv todo by (simp add: invariant_def)
  have thr: "\<And>t. case threads s t of
             None \<Rightarrow> thread_actions t (history s) = [] \<and> Start t (thread_id t) \<in> set (todo s)
           | Some rest \<Rightarrow> thread_actions t (history s) @ rest = program env t
                \<and> Start t (thread_id t) \<notin> set (todo s)"
    using inv by (simp add: invariant_def)
  have joined: "\<And>t. Join t \<in> set (todo s) \<or> threads s t = Some []"
    using inv by (simp add: invariant_def)
  show ?thesis
  proof (cases x)
    case (Start t i)
    note f = start_facts [OF split [unfolded Start]]
    have s': "s' = s\<lparr>todo := rest, threads := (threads s)(t := Some (thread_body env t i)),
        history := history s @ [Main_did (Start t i)]\<rparr>"
      using st todo Start by (simp add: main_step_def)
    have "(case status s' of
            Running \<Rightarrow> todo s' \<noteq> []
          | Exited n \<Rightarrow> n = 0 \<and> todo s' = [] \<and> history s' \<noteq> []
              \<and> last (history s') = Main_did (Return 0)
          | Terminated \<Rightarrow> True)"
      using f(3) run by (auto simp: s')
    moreover have "case threads s' u of
             None \<Rightarrow> thread_actions u (history s') = [] \<and> Start u (thread_id u) \<in> set (todo s')
           | Some rest \<Rightarrow> thread_actions u (history s') @ rest = program env u
                \<and> Start u (thread_id u) \<notin> set (todo s')" for u
        using thr [of u] thr [of t] f
        by (cases "u = t")
          (auto simp: s' todo Start thread_actions_append program_def split: option.splits)
    moreover have "Join u \<in> set (todo s') \<or> threads s' u = Some []" for u
        using joined [of u] f by (cases "u = t") (auto simp: s' todo Start)
    moreover have "main_done (history s') @ todo s' = main"
      using split by (simp add: s' Start main_done_append)
    ultimately show ?thesis
      unfolding invariant_def by blast
  next
    case (Join t)
    note f = join_facts [OF split [unfolded Join]]
    have fin: "threads s t = Some []"
      using st todo Join by (simp add: main_step_def split: option.splits list.splits)
    have s': "s' = s\<lparr>todo := rest, history := history s @ [Main_did (Join t)]\<rparr>"
      using st todo Join fin by (simp add: main_step_def)
    have "case threads s' u of
             None \<Rightarrow> thread_actions u (history s') = [] \<and> Start u (thread_id u) \<in> set (todo s')
           | Some rest \<Rightarrow> thread_actions u (history s') @ rest = program env u
                \<and> Start u (thread_id u) \<notin> set (todo s')" for u
        using thr [of u] f(3) [of u "thread_id u"]
        by (auto simp: s' todo Join thread_actions_append split: option.splits)
    moreover have "Join u \<in> set (todo s') \<or> threads s' u = Some []" for u
        using joined [of u] fin by (auto simp: s' todo Join)
    moreover have "main_done (history s') @ todo s' = main"
      using split by (simp add: s' Join main_done_append)
    moreover have "(case status s' of
            Running \<Rightarrow> todo s' \<noteq> []
          | Exited n \<Rightarrow> n = 0 \<and> todo s' = [] \<and> history s' \<noteq> []
              \<and> last (history s') = Main_did (Return 0)
          | Terminated \<Rightarrow> True)"
      using run f(2) by (simp add: s')
    ultimately show ?thesis
      unfolding invariant_def by blast
  next
    case (Return n)
    note f = return_facts [OF split [unfolded Return]]
    have s': "s' = s\<lparr>todo := [], status := Exited 0,
        history := history s @ [Main_did (Return 0)]\<rparr>"
      using st todo Return f by (simp add: main_step_def)
    have "case threads s' u of
             None \<Rightarrow> thread_actions u (history s') = [] \<and> Start u (thread_id u) \<in> set (todo s')
           | Some rest \<Rightarrow> thread_actions u (history s') @ rest = program env u
                \<and> Start u (thread_id u) \<notin> set (todo s')" for u
        using thr [of u] joined [of u] f
        by (auto simp: s' todo Return thread_actions_append split: option.splits)
    moreover have "Join u \<in> set (todo s') \<or> threads s' u = Some []" for u
        using joined [of u] f by (auto simp: s' todo Return)
    moreover have "main_done (history s') @ todo s' = main"
      using split f by (simp add: s' Return main_done_append)
    moreover have "(case status s' of
            Running \<Rightarrow> todo s' \<noteq> []
          | Exited n \<Rightarrow> n = 0 \<and> todo s' = [] \<and> history s' \<noteq> []
              \<and> last (history s') = Main_did (Return 0)
          | Terminated \<Rightarrow> True)"
      by (simp add: s')
    ultimately show ?thesis
      unfolding invariant_def by blast
  qed
qed

lemma thread_step_invariant:
  assumes inv: "invariant env s" and run: "status s = Running" and st: "thread_step t s = Some s'"
  shows "invariant env s'"
proof -
  obtain a rest where thr: "threads s t = Some (a # rest)"
    using st by (auto simp: thread_step_def split: option.splits list.splits)
  have s': "s' = s\<lparr>threads := (threads s)(t := Some rest),
      history := history s @ [Thread_did t a]\<rparr>"
    using st thr by (simp add: thread_step_def)
  have old: "case threads s u of
             None \<Rightarrow> thread_actions u (history s) = [] \<and> Start u (thread_id u) \<in> set (todo s)
           | Some rest \<Rightarrow> thread_actions u (history s) @ rest = program env u
                \<and> Start u (thread_id u) \<notin> set (todo s)" for u
    using inv by (simp add: invariant_def)
  have joined: "Join u \<in> set (todo s) \<or> threads s u = Some []" for u
    using inv by (simp add: invariant_def)
  have "case threads s' u of
             None \<Rightarrow> thread_actions u (history s') = [] \<and> Start u (thread_id u) \<in> set (todo s')
           | Some rest \<Rightarrow> thread_actions u (history s') @ rest = program env u
                \<and> Start u (thread_id u) \<notin> set (todo s')" for u
    using old [of u] thr
    by (cases "u = t") (auto simp: s' thread_actions_append split: option.splits)
  moreover have "Join u \<in> set (todo s') \<or> threads s' u = Some []" for u
    using joined [of u] thr by (cases "u = t") (auto simp: s')
  moreover have "main_done (history s') @ todo s' = main"
    using inv by (simp add: invariant_def s' main_done_append)
  moreover have "(case status s' of
            Running \<Rightarrow> todo s' \<noteq> []
          | Exited n \<Rightarrow> n = 0 \<and> todo s' = [] \<and> history s' \<noteq> []
              \<and> last (history s') = Main_did (Return 0)
          | Terminated \<Rightarrow> True)"
    using inv run by (simp add: invariant_def s')
  ultimately show ?thesis
    unfolding invariant_def by blast
qed

lemma start_fails_invariant:
  assumes inv: "invariant env s" and st: "start_fails s = Some s'"
  shows "invariant env s'"
proof -
  obtain t where s': "s' = s\<lparr>status := Terminated, history := history s @ [Start_failed t]\<rparr>"
    using st by (auto simp: start_fails_def split: list.splits statement.splits)
  show ?thesis
    using inv
    by (simp add: invariant_def s' main_done_append thread_actions_append
        cong: option.case_cong)
qed

lemma step_invariant:
  assumes "invariant env s" and "step env c s = Some s'"
  shows "invariant env s'"
proof (cases c)
  case Main_step
  then show ?thesis
    using assms main_step_invariant [of env s s']
    by (simp add: step_def split: if_splits)
next
  case Start_fails
  then show ?thesis
    using assms start_fails_invariant [of env s s']
    by (simp add: step_def split: if_splits)
next
  case (Thread_step t)
  then show ?thesis
    using assms thread_step_invariant [of env s t s']
    by (simp add: step_def split: if_splits status.splits)
qed

lemma run_invariant:
  "invariant env s \<Longrightarrow> run env cs s = Some s' \<Longrightarrow> invariant env s'"
proof (induction cs arbitrary: s)
  case Nil
  then show ?case by simp
next
  case (Cons c cs)
  then show ?case
    by (auto split: option.splits dest: step_invariant)
qed

lemma reachable_invariant: "run env cs initial = Some s \<Longrightarrow> invariant env s"
  using invariant_initial run_invariant by blast

text \<open>What the invariant says of a process that has exited.\<close>

lemma exited_complete:
  assumes "invariant env s" and "status s = Exited n"
  shows "n = 0" and "todo s = []" and "main_done (history s) = main"
    and "threads s t = Some []" and "thread_actions t (history s) = program env t"
proof -
  show n: "n = 0" and todo: "todo s = []"
    using assms by (simp_all add: invariant_def)
  show "main_done (history s) = main"
    using assms(1) todo by (simp add: invariant_def)
  have "Join t \<in> set (todo s) \<or> threads s t = Some []"
    using assms(1) by (simp add: invariant_def)
  then show thr: "threads s t = Some []"
    using todo by simp
  have "case threads s t of
             None \<Rightarrow> thread_actions t (history s) = [] \<and> Start t (thread_id t) \<in> set (todo s)
           | Some rest \<Rightarrow> thread_actions t (history s) @ rest = program env t
                \<and> Start t (thread_id t) \<notin> set (todo s)"
    using assms(1) by (simp add: invariant_def)
  then show "thread_actions t (history s) = program env t"
    using thr by simp
qed

text \<open>In any state a thread has performed a prefix of its program.\<close>

lemma thread_actions_prefix:
  assumes "invariant env s"
  shows "\<exists>rest. thread_actions t (history s) @ rest = program env t"
proof -
  have "case threads s t of
             None \<Rightarrow> thread_actions t (history s) = [] \<and> Start t (thread_id t) \<in> set (todo s)
           | Some rest \<Rightarrow> thread_actions t (history s) @ rest = program env t
                \<and> Start t (thread_id t) \<notin> set (todo s)"
    using assms by (simp add: invariant_def)
  then show ?thesis
    by (cases "threads s t") auto
qed

subsection \<open>Progress and the length of runs\<close>

lemma no_failure_not_terminated:
  "run env cs s = Some s' \<Longrightarrow> Start_fails \<notin> set cs \<Longrightarrow> status s \<noteq> Terminated
     \<Longrightarrow> status s' \<noteq> Terminated"
proof (induction cs arbitrary: s)
  case Nil
  then show ?case by simp
next
  case (Cons c cs)
  from Cons.prems obtain s1 where s1: "step env c s = Some s1" "run env cs s1 = Some s'"
    by (auto split: option.splits)
  have "status s1 \<noteq> Terminated"
    using s1(1) Cons.prems(2,3)
    by (cases c)
      (auto simp: step_def main_step_def thread_step_def
        split: if_splits list.splits statement.splits option.splits)
  then show ?case
    using Cons.IH [OF s1(2)] Cons.prems(2) by simp
qed

lemma progress:
  assumes inv: "invariant env s" and run: "status s = Running"
  shows "(\<exists>s'. step env Main_step s = Some s') \<or> (\<exists>t s'. step env (Thread_step t) s = Some s')"
proof -
  obtain x rest where todo: "todo s = x # rest"
    using inv run by (cases "todo s") (simp_all add: invariant_def)
  have split: "main_done (history s) @ x # rest = main"
    using inv todo by (simp add: invariant_def)
  show ?thesis
  proof (cases x)
    case (Start t i)
    then show ?thesis
      using run todo by (simp add: step_def main_step_def)
  next
    case (Return n)
    then show ?thesis
      using run todo by (simp add: step_def main_step_def)
  next
    case (Join t)
    have "Start t (thread_id t) \<notin> set (todo s)"
      using join_facts(3) [OF split [unfolded Join]] todo Join by simp
    moreover have "case threads s t of
             None \<Rightarrow> thread_actions t (history s) = [] \<and> Start t (thread_id t) \<in> set (todo s)
           | Some rest \<Rightarrow> thread_actions t (history s) @ rest = program env t
                \<and> Start t (thread_id t) \<notin> set (todo s)"
      using inv by (simp add: invariant_def)
    ultimately obtain as where as: "threads s t = Some as"
      by (cases "threads s t") auto
    show ?thesis
    proof (cases as)
      case Nil
      then show ?thesis
        using run todo Join as by (simp add: step_def main_step_def)
    next
      case (Cons a as')
      then have "step env (Thread_step t) s \<noteq> None"
        using run as by (simp add: step_def thread_step_def)
      then show ?thesis
        by blast
    qed
  qed
qed

lemma exited_last_event:
  assumes "invariant env s" and "status s = Exited n"
  shows "history s \<noteq> []" and "last (history s) = Main_did (Return 0)"
  using assms by (simp_all add: invariant_def)

lemma length_worker:
  "length (worker p id' starting ending []) = (if id' = 1 then 57 else 17)"
  by (simp add: worker_closed length_concat iteration_def yield_notice_writes_def
      summary_writes_def sum_list_replicate)

lemma length_program: "length (program env t) = (if t = T1 then 57 else 17)"
  by (cases t) (simp_all add: program_def thread_body_def length_worker)

lemma remaining_initial: "remaining env initial = 98"
  by (simp add: remaining_def waiting_def initial_def main_def length_program)

lemma waiting_update:
  "waiting env (s\<lparr>threads := (threads s)(t := v), history := h\<rparr>) u =
     (if u = t then (case v of None \<Rightarrow> length (program env t) | Some rest \<Rightarrow> length rest)
      else waiting env s u)"
  by (auto simp: waiting_def)

lemma remaining_thread:
  "remaining env s = length (todo s) + waiting env s t
     + (\<Sum>u \<leftarrow> filter (\<lambda>u. u \<noteq> t) [T1, T2, T3]. waiting env s u)"
  by (cases t) (simp_all add: remaining_def)

lemma step_remaining:
  assumes inv: "invariant env s" and st: "step env c s = Some s'" and c: "c \<noteq> Start_fails"
  shows "Suc (remaining env s') = remaining env s"
proof (cases c)
  case Start_fails
  then show ?thesis using c by simp
next
  case (Thread_step t)
  then obtain a rest where thr: "threads s t = Some (a # rest)"
    using st by (auto simp: step_def thread_step_def split: if_splits option.splits list.splits)
  have s': "s' = s\<lparr>threads := (threads s)(t := Some rest),
      history := history s @ [Thread_did t a]\<rparr>"
    using st thr Thread_step by (simp add: step_def thread_step_def split: if_splits)
  have "waiting env s t = Suc (length rest)"
    using thr by (simp add: waiting_def)
  then show ?thesis
    unfolding remaining_thread [of env _ t] s'
    by (cases t) (simp_all add: waiting_def)
next
  case Main_step
  then have ms: "main_step env s = Some s'"
    using st by (simp add: step_def split: if_splits)
  obtain x rest where todo: "todo s = x # rest"
    using ms by (cases "todo s") (simp_all add: main_step_def)
  have split: "main_done (history s) @ x # rest = main"
    using inv todo by (simp add: invariant_def)
  show ?thesis
  proof (cases x)
    case (Start t i)
    note f = start_facts [OF split [unfolded Start]]
    have s': "s' = s\<lparr>todo := rest, threads := (threads s)(t := Some (thread_body env t i)),
        history := history s @ [Main_did (Start t i)]\<rparr>"
      using ms todo Start by (simp add: main_step_def)
    have "case threads s t of
             None \<Rightarrow> thread_actions t (history s) = [] \<and> Start t (thread_id t) \<in> set (todo s)
           | Some rest \<Rightarrow> thread_actions t (history s) @ rest = program env t
                \<and> Start t (thread_id t) \<notin> set (todo s)"
      using inv by (simp add: invariant_def)
    then have none: "threads s t = None"
      using todo Start f(1) by (cases "threads s t") auto
    have "thread_body env t i = program env t"
      using f(1) by (simp add: program_def)
    then show ?thesis
      unfolding remaining_thread [of env _ t] s' using none todo
      by (cases t) (simp_all add: waiting_def)
  next
    case (Join t)
    then have s': "s' = s\<lparr>todo := rest, history := history s @ [Main_did (Join t)]\<rparr>"
      using ms todo by (auto simp: main_step_def split: option.splits list.splits)
    show ?thesis
      using todo by (simp add: s' remaining_def waiting_def)
  next
    case (Return n)
    then have s': "s' = s\<lparr>todo := rest, status := Exited n,
        history := history s @ [Main_did (Return n)]\<rparr>"
      using ms todo by (simp add: main_step_def)
    show ?thesis
      using todo by (simp add: s' remaining_def waiting_def)
  qed
qed

lemma run_remaining:
  "invariant env s \<Longrightarrow> run env cs s = Some s' \<Longrightarrow> Start_fails \<notin> set cs
     \<Longrightarrow> length cs + remaining env s' = remaining env s"
proof (induction cs arbitrary: s)
  case Nil
  then show ?case by simp
next
  case (Cons c cs)
  from Cons.prems obtain s1 where s1: "step env c s = Some s1" "run env cs s1 = Some s'"
    by (auto split: option.splits)
  have "Suc (remaining env s1) = remaining env s"
    using Cons.prems(1) s1(1) Cons.prems(3) by (intro step_remaining) auto
  moreover have "length cs + remaining env s' = remaining env s1"
    using Cons.IH [OF step_invariant [OF Cons.prems(1) s1(1)] s1(2)] Cons.prems(3) by simp
  ultimately show ?case
    by simp
qed

lemma exited_remaining:
  assumes "invariant env s" and "status s = Exited n"
  shows "remaining env s = 0"
  using exited_complete(2,4) [OF assms] by (simp add: remaining_def waiting_def)

subsection \<open>Two complete runs\<close>

lemma run_append:
  "run env (cs @ cs') s = (case run env cs s of None \<Rightarrow> None | Some s1 \<Rightarrow> run env cs' s1)"
  by (induction cs arbitrary: s) (simp_all split: option.splits)

lemma run_thread:
  "threads s t = Some as \<Longrightarrow> status s = Running \<Longrightarrow>
   run env (replicate (length as) (Thread_step t)) s =
     Some (s\<lparr>threads := (threads s)(t := Some []),
             history := history s @ map (Thread_did t) as\<rparr>)"
proof (induction as arbitrary: s)
  case Nil
  then have "(threads s)(t := Some []) = threads s"
    by (simp add: fun_upd_idem)
  then show ?case
    by simp
next
  case (Cons a as)
  let ?s1 = "s\<lparr>threads := (threads s)(t := Some as), history := history s @ [Thread_did t a]\<rparr>"
  have "step env (Thread_step t) s = Some ?s1"
    using Cons.prems by (simp add: step_def thread_step_def)
  then have "run env (replicate (length (a # as)) (Thread_step t)) s =
      run env (replicate (length as) (Thread_step t)) ?s1"
    by simp
  also have "\<dots> = Some (?s1\<lparr>threads := (threads ?s1)(t := Some []),
        history := history ?s1 @ map (Thread_did t) as\<rparr>)"
    using Cons.prems by (intro Cons.IH) simp_all
  also have "?s1\<lparr>threads := (threads ?s1)(t := Some []),
        history := history ?s1 @ map (Thread_did t) as\<rparr> =
      s\<lparr>threads := (threads s)(t := Some []),
        history := history s @ map (Thread_did t) (a # as)\<rparr>"
    by simp
  finally show ?case .
qed

lemma run_started:
  "run env [Main_step, Main_step, Main_step] initial =
     Some \<lparr>todo = [Join T1, Join T2, Join T3, Return 0],
           threads = (\<lambda>t. Some (program env t)),
           history = [Main_did (Start T1 1), Main_did (Start T2 2), Main_did (Start T3 3)],
           status = Running\<rparr>"
  by (simp add: step_def main_step_def initial_def main_def program_def fun_eq_iff all_threads)

lemma run_joins:
  assumes "todo s = [Join T1, Join T2, Join T3, Return 0]" and "status s = Running"
    and "\<And>t. threads s t = Some []"
  shows "\<exists>s'. run env [Main_step, Main_step, Main_step, Main_step] s = Some s'
    \<and> status s' = Exited 0"
  using assms by (simp add: step_def main_step_def)

lemma complete_run:
  assumes all: "\<And>t. t = a \<or> t = b \<or> t = c" and ne: "a \<noteq> b" "a \<noteq> c" "b \<noteq> c"
  shows "\<exists>s. run env ([Main_step, Main_step, Main_step]
        @ run_to_completion env a @ run_to_completion env b @ run_to_completion env c
        @ [Main_step, Main_step, Main_step, Main_step]) initial = Some s
      \<and> status s = Exited 0"
proof -
  let ?s3 = "\<lparr>todo = [Join T1, Join T2, Join T3, Return 0],
           threads = (\<lambda>t. Some (program env t)),
           history = [Main_did (Start T1 1), Main_did (Start T2 2), Main_did (Start T3 3)],
           status = Running\<rparr>"
  let ?s4 = "?s3\<lparr>threads := (threads ?s3)(a := Some []),
      history := history ?s3 @ map (Thread_did a) (program env a)\<rparr>"
  let ?s5 = "?s4\<lparr>threads := (threads ?s4)(b := Some []),
      history := history ?s4 @ map (Thread_did b) (program env b)\<rparr>"
  let ?s6 = "?s5\<lparr>threads := (threads ?s5)(c := Some []),
      history := history ?s5 @ map (Thread_did c) (program env c)\<rparr>"
  have r4: "run env (run_to_completion env a) ?s3 = Some ?s4"
    unfolding run_to_completion_def by (rule run_thread) simp_all
  have r5: "run env (run_to_completion env b) ?s4 = Some ?s5"
    unfolding run_to_completion_def using ne by (intro run_thread) simp_all
  have r6: "run env (run_to_completion env c) ?s5 = Some ?s6"
    unfolding run_to_completion_def using ne by (intro run_thread) simp_all
  have "threads ?s6 t = Some []" for t
    using all [of t] by auto
  then obtain s' where r7: "run env [Main_step, Main_step, Main_step, Main_step] ?s6 = Some s'"
      and ex: "status s' = Exited 0"
    using run_joins [of ?s6 env] by auto
  have "run env ([Main_step, Main_step, Main_step]
        @ run_to_completion env a @ run_to_completion env b @ run_to_completion env c
        @ [Main_step, Main_step, Main_step, Main_step]) initial = Some s'"
    by (simp only: run_append run_started r4 r5 r6 r7 option.case)
  then show ?thesis
    using ex by blast
qed

lemma all_started_first_exits:
  "\<exists>s. run env (all_started_first env) initial = Some s \<and> status s = Exited 0"
  unfolding all_started_first_def
  by (rule complete_run) (simp_all, metis thread.exhaust)

lemma last_started_first_exits:
  "\<exists>s. run env (last_started_first env) initial = Some s \<and> status s = Exited 0"
  unfolding last_started_first_def
  by (rule complete_run) (simp_all, metis thread.exhaust)

lemma program_closed:
  "program env t =
     Now (fst (readings env t)) # concat (replicate 10 (iteration (thread_id t)))
       @ Now (snd (readings env t)) # summary_writes (thread_id t) (elapsed env t)"
  by (simp add: program_def thread_body_def worker_closed elapsed_def)

lemma lines_of_program:
  "lines_of (cout_of (program env t)) =
     (if thread_id t = 1 then replicate 10 yield_notice else [])
       @ [summary_line (thread_id t) (elapsed env t)]"
  by (simp add: program_def thread_body_def lines_of_worker elapsed_def)

lemma yield_notice_is_yield_notice: "is_yield_notice yield_notice"
  unfolding is_yield_notice_def yield_notice_def
  by (rule exI [of _ 1]) (simp add: show_int_1)

lemma summary_not_yield_notice: "\<not> is_yield_notice (summary_line i n)"
proof
  assume "is_yield_notice (summary_line i n)"
  then obtain j where "summary_line i n = ''Thread '' @ show_int j @ '' is yielding...''"
    by (auto simp: is_yield_notice_def)
  then have "last (summary_line i n) = last (''Thread '' @ show_int j @ '' is yielding...'')"
    by simp
  then show False
    by (simp add: summary_line_def)
qed

lemma exited_thread_lines:
  assumes "run env cs initial = Some s" and "status s = Exited n"
  shows "thread_lines t s =
     (if thread_id t = 1 then replicate 10 yield_notice else [])
       @ [summary_line (thread_id t) (elapsed env t)]"
  using exited_complete(5) [OF reachable_invariant [OF assms(1)] assms(2), of t]
  by (simp add: thread_lines_def lines_of_program)

lemma joined_thread_complete:
  assumes inv: "invariant env s" and j: "Join t \<in> set (main_done (history s))"
  shows "threads s t = Some []" and "thread_actions t (history s) = program env t"
proof -
  have "distinct (main_done (history s) @ todo s)"
    using inv by (simp add: invariant_def main_def)
  then have "Join t \<notin> set (todo s)"
    using j by auto
  moreover have "Join t \<in> set (todo s) \<or> threads s t = Some []"
    using inv by (simp add: invariant_def)
  ultimately show thr: "threads s t = Some []"
    by simp
  have "case threads s t of
             None \<Rightarrow> thread_actions t (history s) = [] \<and> Start t (thread_id t) \<in> set (todo s)
           | Some rest \<Rightarrow> thread_actions t (history s) @ rest = program env t
                \<and> Start t (thread_id t) \<notin> set (todo s)"
    using inv by (simp add: invariant_def)
  then show "thread_actions t (history s) = program env t"
    using thr by simp
qed

lemma worker_appends: "worker p id' starting ending w = w @ worker p id' starting ending []"
  by (simp add: worker_closed)

lemma main_done_prefix:
  assumes "invariant env s"
  shows "main_done (history s) = take (length (main_done (history s))) main"
proof -
  have "main_done (history s) @ todo s = main"
    using assms by (simp add: invariant_def)
  then show ?thesis
    by (metis append_eq_conv_conj)
qed

section \<open>Properties of the worker among other tasks\<close>

lemma performed_interfered [simp]: "performed (interfered env \<sigma>) = performed \<sigma>"
  by (simp add: interfered_def)

lemma effects_interfered [simp]: "effects (interfered env \<sigma>) = Suc (effects \<sigma>)"
  by (simp add: interfered_def)

lemma shared_write_facts [simp]:
  "performed (shared_write env s \<sigma>) = performed \<sigma> @ [Write s]"
  "effects (shared_write env s \<sigma>) = Suc (effects \<sigma>)"
  by (simp_all add: shared_write_def Let_def)

lemma shared_yield_facts [simp]:
  "performed (shared_yield env \<sigma>) = performed \<sigma> @ [Yield]"
  "effects (shared_yield env \<sigma>) = Suc (effects \<sigma>)"
  by (simp_all add: shared_yield_def Let_def)

lemma shared_sleep_for_facts [simp]:
  "performed (shared_sleep_for env ms \<sigma>) = performed \<sigma> @ [Sleep_for ms]"
  "effects (shared_sleep_for env ms \<sigma>) = Suc (effects \<sigma>)"
  by (simp_all add: shared_sleep_for_def Let_def)

lemma shared_now_facts [simp]:
  "fst (shared_now env \<sigma>) = clock (env (effects \<sigma>) (around \<sigma>))"
  "performed (snd (shared_now env \<sigma>)) = performed \<sigma> @ [Now (fst (shared_now env \<sigma>))]"
  "effects (snd (shared_now env \<sigma>)) = Suc (effects \<sigma>)"
  by (simp_all add: shared_now_def Let_def interfered_def)

lemma shared_body:
  "performed (shared_sleep_for env 100
      (if id' = 1 then
         shared_yield env
           (shared_write env ('' is yielding...'' @ [newline])
             (shared_write env (show_int id') (shared_write env ''Thread '' \<sigma>)))
       else \<sigma>)) = performed \<sigma> @ iteration id'"
  "effects (shared_sleep_for env 100
      (if id' = 1 then
         shared_yield env
           (shared_write env ('' is yielding...'' @ [newline])
             (shared_write env (show_int id') (shared_write env ''Thread '' \<sigma>)))
       else \<sigma>)) = effects \<sigma> + length (iteration id')"
  by (simp_all add: iteration_def yield_notice_writes_def show_int_1)

lemma worker_loop_shared_closed:
  "performed (worker_loop_shared env id' i \<sigma>) =
     performed \<sigma> @ concat (replicate (nat (10 - i)) (iteration id'))
   \<and> effects (worker_loop_shared env id' i \<sigma>) =
     effects \<sigma> + nat (10 - i) * length (iteration id')"
proof (induction env id' i \<sigma> rule: worker_loop_shared.induct)
  case (1 env id' i \<sigma>)
  show ?case
  proof (cases "i < 10")
    case True
    then have n: "nat (10 - i) = Suc (nat (10 - (i + 1)))"
      by simp
    show ?thesis
      using "1.IH" [OF True] True
      by (subst (1 2) worker_loop_shared.simps) (simp only: shared_body n if_True, simp)
  next
    case False
    then show ?thesis
      by (subst (1 2) worker_loop_shared.simps) simp
  qed
qed

lemma worker_loop_shared_refines:
  "performed (worker_loop_shared env id' i \<sigma>) = worker_loop id' i (performed \<sigma>)"
  by (simp add: worker_loop_shared_closed worker_loop_closed)

lemma worker_shared_refines:
  "performed (worker_shared p env id' \<sigma>) =
     worker p id' (first_reading env \<sigma>) (second_reading env id' \<sigma>) (performed \<sigma>)"
  unfolding worker_shared_def first_reading_def second_reading_def
  by (simp add: Let_def split_beta worker_loop_shared_refines worker_def clock_now_def
      cout_write_def del: shared_now_facts(1))

lemma own_actions_refines:
  "own_actions p env id' \<sigma> =
     worker p id' (first_reading env \<sigma>) (second_reading env id' \<sigma>) []"
  unfolding own_actions_def worker_shared_refines
  by (subst worker_appends) simp

lemma readings_of_append: "readings_of (xs @ ys) = readings_of xs @ readings_of ys"
  by (simp add: readings_of_def)

lemma readings_of_iteration: "readings_of (iteration id') = []"
  by (auto simp: readings_of_def iteration_def yield_notice_writes_def)

lemma readings_of_iterations: "readings_of (concat (replicate n (iteration id'))) = []"
proof (induction n)
  case 0
  show ?case by (simp add: readings_of_def)
next
  case (Suc n)
  then show ?case
    by (simp only: replicate_Suc concat.simps readings_of_append readings_of_iteration append_Nil)
qed

lemma readings_of_worker: "readings_of (worker p id' starting ending []) = [starting, ending]"
proof -
  have "readings_of (worker p id' starting ending []) =
      readings_of [Now starting] @ readings_of (concat (replicate 10 (iteration id')))
        @ readings_of (Now ending # summary_writes id' (duration_cast_milliseconds p (ending - starting)))"
    by (simp add: worker_closed readings_of_append [symmetric])
  then show ?thesis
    by (simp add: readings_of_iterations) (simp add: readings_of_def summary_writes_def)
qed

lemma second_reading_at:
  "second_reading env id' \<sigma> =
     clock (env (Suc (effects \<sigma>) + 10 * length (iteration id'))
       (around (worker_loop_shared env id' 0 (snd (shared_now env \<sigma>)))))"
  by (simp add: second_reading_def worker_loop_shared_closed)

lemma example_readings:
  "first_reading quiet_interference fresh_task = 5000"
  "second_reading quiet_interference 1 fresh_task = 1001905000"
  "first_reading busy_interference later_task = 5000"
  "second_reading busy_interference 1 later_task = 1001905000"
  by (simp_all add: first_reading_def second_reading_at quiet_interference_def
      busy_interference_def fresh_task_def later_task_def iteration_def yield_notice_writes_def
      example_clock_def)

section \<open>The claims about the worker routine\<close>


text \<open>
  C3. Whatever its \<open>id\<close> and the readings of the clock, a task writes exactly one summary
  line. It is the last line the task writes and reads
  \<^verbatim>\<open>Thread <id> finished execution in <N> milliseconds\<close>, with the \<open>id\<close> the routine was
  called with. Its five insertions come after the ten iterations of the loop and the
  second reading of the clock. \<open>N\<close> is the elapsed count of milliseconds: a whole number
  less than one millisecond away from the time between the two readings, and its floor
  when the second reading is not below the first.
\<close>

theorem worker_one_summary_line:
  "length (filter is_summary_line (lines_of (cout_of (worker p id' starting ending [])))) = 1
   \<and> last (lines_of (cout_of (worker p id' starting ending []))) =
       ''Thread '' @ show_int id' @ '' finished execution in ''
         @ show_int (duration_cast_milliseconds p (ending - starting)) @ '' milliseconds''
   \<and> worker p id' starting ending w =
       worker_loop id' 0 (clock_now starting w)
         @ Now ending # summary_writes id' (duration_cast_milliseconds p (ending - starting))
   \<and> cout_of (summary_writes id' (duration_cast_milliseconds p (ending - starting))) =
       summary_line id' (duration_cast_milliseconds p (ending - starting)) @ [newline]
   \<and> worker p id' starting ending w =
       w @ Now starting
         # concat (replicate 10
             (if id' = 1
              then [Write ''Thread '', Write (show_int id'),
                    Write ('' is yielding...'' @ [newline]), Yield, Sleep_for 100]
              else [Sleep_for 100]))
         @ [Now ending, Write ''Thread '', Write (show_int id'),
            Write '' finished execution in '',
            Write (show_int (duration_cast_milliseconds p (ending - starting))),
            Write ('' milliseconds'' @ [newline])]
   \<and> (valid_period p \<longrightarrow>
        \<bar>of_int (duration_cast_milliseconds p (ending - starting))
          - exact_milliseconds p (ending - starting)\<bar> < 1)
   \<and> (valid_period p \<and> starting \<le> ending \<longrightarrow>
        duration_cast_milliseconds p (ending - starting) =
          \<lfloor>exact_milliseconds p (ending - starting)\<rfloor>)"
proof (intro conjI impI)
  show "length (filter is_summary_line (lines_of (cout_of (worker p id' starting ending [])))) = 1"
    by (simp add: summary_lines_of_worker)
  show "last (lines_of (cout_of (worker p id' starting ending []))) =
       ''Thread '' @ show_int id' @ '' finished execution in ''
         @ show_int (duration_cast_milliseconds p (ending - starting)) @ '' milliseconds''"
    by (simp add: last_lines_of_worker summary_line_def)
  show "worker p id' starting ending w =
       worker_loop id' 0 (clock_now starting w)
         @ Now ending # summary_writes id' (duration_cast_milliseconds p (ending - starting))"
    by (simp add: worker_closed worker_loop_closed clock_now_def)
  show "cout_of (summary_writes id' (duration_cast_milliseconds p (ending - starting))) =
       summary_line id' (duration_cast_milliseconds p (ending - starting)) @ [newline]"
    by (rule cout_of_summary_writes)
  show "worker p id' starting ending w =
       w @ Now starting
         # concat (replicate 10
             (if id' = 1
              then [Write ''Thread '', Write (show_int id'),
                    Write ('' is yielding...'' @ [newline]), Yield, Sleep_for 100]
              else [Sleep_for 100]))
         @ [Now ending, Write ''Thread '', Write (show_int id'),
            Write '' finished execution in '',
            Write (show_int (duration_cast_milliseconds p (ending - starting))),
            Write ('' milliseconds'' @ [newline])]"
    by (simp add: worker_closed iteration_def yield_notice_writes_def summary_writes_def
        show_int_1)
  show "\<bar>of_int (duration_cast_milliseconds p (ending - starting))
          - exact_milliseconds p (ending - starting)\<bar> < 1"
    if "valid_period p"
    using that by (rule duration_cast_within_one)
  show "duration_cast_milliseconds p (ending - starting) =
          \<lfloor>exact_milliseconds p (ending - starting)\<rfloor>"
    if "valid_period p \<and> starting \<le> ending"
    using that duration_cast_truncates [of p "ending - starting"] by simp
qed

theorem worker_one_summary_line_witness:
  "worker nano 2 61000 1000861999 [] =
       Now 61000 # replicate 10 (Sleep_for 100)
         @ [Now 1000861999, Write ''Thread '', Write ''2'', Write '' finished execution in '',
            Write ''1000'', Write ('' milliseconds'' @ [newline])]
   \<and> last (lines_of (cout_of (worker nano 2 61000 1000861999 []))) =
       ''Thread 2 finished execution in 1000 milliseconds''
   \<and> valid_period nano \<and> (61000::int) \<le> 1000861999
   \<and> exact_milliseconds nano (1000861999 - 61000) = 1000.800999
   \<and> duration_cast_milliseconds nano (1000861999 - 61000) = 1000
   \<and> \<lfloor>exact_milliseconds nano (1000861999 - 61000)\<rfloor> = 1000"
proof -
  note t = worker_one_summary_line [of nano 2 61000 1000861999 "[]"]
  note closed = t [THEN conjunct2, THEN conjunct2, THEN conjunct2, THEN conjunct2, THEN conjunct1]
  note line = t [THEN conjunct2, THEN conjunct1]
  note floor = t [THEN conjunct2, THEN conjunct2, THEN conjunct2, THEN conjunct2,
      THEN conjunct2, THEN conjunct2]
  have n: "duration_cast_milliseconds nano 1000800999 = 1000"
    by (simp add: duration_cast_milliseconds_def cf_num_def cf_den_def nano_def cpp_div_def)
  have s: "show_int 1000 = ''1000''" "show_int 2 = ''2''"
    by (simp_all add: show_int_def show_nat.simps digit_char_def)
  have x: "exact_milliseconds nano 1000800999 = 1000.800999"
    by (simp add: exact_milliseconds_def nano_def)
  have "worker nano 2 61000 1000861999 [] =
       Now 61000 # replicate 10 (Sleep_for 100)
         @ [Now 1000861999, Write ''Thread '', Write ''2'', Write '' finished execution in '',
            Write ''1000'', Write ('' milliseconds'' @ [newline])]"
    using closed by (simp add: n s)
  moreover have "last (lines_of (cout_of (worker nano 2 61000 1000861999 []))) =
       ''Thread 2 finished execution in 1000 milliseconds''"
    using line by (simp add: n s)
  moreover have "\<lfloor>exact_milliseconds nano (1000861999 - 61000)\<rfloor> = 1000"
    using floor by (simp add: n nano_valid)
  ultimately show ?thesis
    by (simp add: n x nano_valid)
qed

text \<open>
  C5, as amended. The worker takes its two timestamps from \<^verbatim>\<open>high_resolution_clock\<close>,
  first before the loop and then after it, and reports the converted difference. When the
  second reading is not below the first, the elapsed duration \<open>ending - starting\<close> is not
  negative, nor is the count \<open>N\<close> of milliseconds, and the summary line shows \<open>N\<close> as a
  numeral of decimal digits without a sign. \<open>N\<close> is negative exactly when the clock has
  gone back by a millisecond or more between the readings; it is then written with a
  minus sign.
\<close>

theorem elapsed_sign_follows_clock:
  assumes "valid_period p"
  shows "worker p id' starting ending w =
       w @ Now starting # concat (replicate 10 (iteration id'))
         @ Now ending # summary_writes id' (duration_cast_milliseconds p (ending - starting))
    \<and> last (lines_of (cout_of (worker p id' starting ending []))) =
        summary_line id' (duration_cast_milliseconds p (ending - starting))
    \<and> (starting \<le> ending \<longrightarrow>
          0 \<le> ending - starting
          \<and> 0 \<le> duration_cast_milliseconds p (ending - starting)
          \<and> show_int (duration_cast_milliseconds p (ending - starting)) =
              show_nat (nat (duration_cast_milliseconds p (ending - starting)))
          \<and> set (show_int (duration_cast_milliseconds p (ending - starting)))
              \<subseteq> set ''0123456789'')
    \<and> (0 \<le> duration_cast_milliseconds p (ending - starting)
          \<longleftrightarrow> - 1 < exact_milliseconds p (ending - starting))
    \<and> (duration_cast_milliseconds p (ending - starting) < 0 \<longrightarrow>
          ending < starting
          \<and> show_int (duration_cast_milliseconds p (ending - starting)) =
              CHR ''-'' # show_nat (nat (- duration_cast_milliseconds p (ending - starting))))"
proof (intro conjI impI)
  let ?n = "duration_cast_milliseconds p (ending - starting)"
  show "worker p id' starting ending w =
       w @ Now starting # concat (replicate 10 (iteration id'))
         @ Now ending # summary_writes id' ?n"
    by (rule worker_closed)
  show "last (lines_of (cout_of (worker p id' starting ending []))) = summary_line id' ?n"
    by (rule last_lines_of_worker)
  show "0 \<le> ?n \<longleftrightarrow> - 1 < exact_milliseconds p (ending - starting)"
    using assms by (rule duration_cast_sign)
  show "0 \<le> ending - starting" if "starting \<le> ending"
    using that by simp
  show n: "0 \<le> ?n" if "starting \<le> ending"
    using assms that by (intro duration_cast_nonneg) simp_all
  show "show_int ?n = show_nat (nat ?n)" if "starting \<le> ending"
    using n [OF that] by (simp add: show_int_def)
  then show "set (show_int ?n) \<subseteq> set ''0123456789''" if "starting \<le> ending"
    using that show_nat_digits [of "nat ?n"] by simp
  show "ending < starting" if "?n < 0"
  proof (rule ccontr)
    assume "\<not> ending < starting"
    then have "0 \<le> ?n"
      using assms by (intro duration_cast_nonneg) simp_all
    then show False
      using that by simp
  qed
  show "show_int ?n = CHR ''-'' # show_nat (nat (- ?n))" if "?n < 0"
    using that by (simp add: show_int_def)
qed

theorem elapsed_sign_follows_clock_witness:
  "valid_period nano \<and> (0::int) \<le> 1000123456
   \<and> duration_cast_milliseconds nano (1000123456 - 0) = 1000
   \<and> show_int (duration_cast_milliseconds nano (1000123456 - 0)) =
       show_nat (nat (duration_cast_milliseconds nano (1000123456 - 0)))
   \<and> show_int (duration_cast_milliseconds nano (1000123456 - 0)) = ''1000''
   \<and> duration_cast_milliseconds nano (5000 - 1000005000) < 0
   \<and> (5000::int) < 1000005000
   \<and> show_int (duration_cast_milliseconds nano (5000 - 1000005000)) =
       CHR ''-'' # show_nat (nat (- duration_cast_milliseconds nano (5000 - 1000005000)))
   \<and> show_int (duration_cast_milliseconds nano (5000 - 1000005000)) = ''-1000''"
proof -
  note fwd = elapsed_sign_follows_clock [OF nano_valid, of 2 0 1000123456 "[]",
      THEN conjunct2, THEN conjunct2, THEN conjunct1]
  note bwd = elapsed_sign_follows_clock [OF nano_valid, of 2 1000005000 5000 "[]",
      THEN conjunct2, THEN conjunct2, THEN conjunct2, THEN conjunct2]
  have n: "duration_cast_milliseconds nano 1000123456 = 1000"
      "duration_cast_milliseconds nano (- 1000000000) = - 1000"
    by (simp_all add: duration_cast_milliseconds_def cf_num_def cf_den_def nano_def cpp_div_def)
  have s: "show_int 1000 = ''1000''" "show_int (- 1000) = ''-1000''"
    by (simp_all add: show_int_def show_nat.simps digit_char_def)
  have "show_int (duration_cast_milliseconds nano (1000123456 - 0)) =
       show_nat (nat (duration_cast_milliseconds nano (1000123456 - 0)))"
    using fwd by simp
  moreover have "show_int (duration_cast_milliseconds nano (5000 - 1000005000)) =
       CHR ''-'' # show_nat (nat (- duration_cast_milliseconds nano (5000 - 1000005000)))"
    using bwd by (simp add: n)
  ultimately show ?thesis
    by (simp add: n s nano_valid)
qed

text \<open>
  The claim C5 as it stands says that the elapsed duration and \<open>N\<close> are never negative.
  Here the clock is set back by one second between the two readings, which
  \<^verbatim>\<open>high_resolution_clock\<close> allows where it is the system clock: the task reports -1000.
\<close>

theorem clock_steps_back_counterexample:
  "duration_cast_milliseconds nano (5000 - 1000005000) = - 1000
   \<and> last (lines_of (cout_of (worker nano 2 1000005000 5000 []))) =
       ''Thread 2 finished execution in -1000 milliseconds''"
proof -
  have n: "duration_cast_milliseconds nano (- 1000000000) = - 1000"
    by (simp add: duration_cast_milliseconds_def cf_num_def cf_den_def nano_def cpp_div_def)
  have s: "show_int (- 1000) = ''-1000''" "show_int 2 = ''2''"
    by (simp_all add: show_int_def show_nat.simps digit_char_def)
  show ?thesis
    by (simp add: last_lines_of_worker n s summary_line_def)
qed

text \<open>
  C6. The routine reads the clock, runs the ten iterations of the loop, reads the clock
  again and then writes the summary; the number in the summary is
  \<^verbatim>\<open>duration_cast<milliseconds>(ending - starting)\<close>, a whole number of milliseconds less
  than one millisecond away from the elapsed time.
\<close>

theorem elapsed_is_end_minus_start:
  "worker p id' starting ending w =
     w @ [Now starting] @ concat (replicate 10 (iteration id')) @ [Now ending]
       @ summary_writes id' (duration_cast_milliseconds p (ending - starting))
   \<and> cout_of (summary_writes id' (duration_cast_milliseconds p (ending - starting))) =
       ''Thread '' @ show_int id' @ '' finished execution in ''
         @ show_int (duration_cast_milliseconds p (ending - starting))
         @ '' milliseconds'' @ [newline]
   \<and> (valid_period p \<longrightarrow>
        \<bar>of_int (duration_cast_milliseconds p (ending - starting))
          - exact_milliseconds p (ending - starting)\<bar> < 1)"
  by (simp add: worker_closed cout_of_summary_writes duration_cast_within_one)
    (simp add: summary_line_def)

theorem elapsed_is_end_minus_start_witness:
  "worker nano 3 250 1000123706 [] =
     [Now 250] @ concat (replicate 10 [Sleep_for 100]) @ [Now 1000123706]
       @ [Write ''Thread '', Write ''3'', Write '' finished execution in '', Write ''1000'',
          Write ('' milliseconds'' @ [newline])]
   \<and> valid_period nano
   \<and> exact_milliseconds nano (1000123706 - 250) = 1000.123456
   \<and> \<bar>1000 - exact_milliseconds nano (1000123706 - 250)\<bar> < 1"
proof -
  have n: "duration_cast_milliseconds nano 1000123456 = 1000"
    by (simp add: duration_cast_milliseconds_def cf_num_def cf_den_def nano_def cpp_div_def)
  have s: "show_int 1000 = ''1000''" "show_int 3 = ''3''"
    by (simp_all add: show_int_def show_nat.simps digit_char_def)
  have x: "exact_milliseconds nano 1000123456 = 1000.123456"
    by (simp add: exact_milliseconds_def nano_def)
  show ?thesis
    using elapsed_is_end_minus_start [of nano 3 250 1000123706 "[]"]
    by (simp add: n s x nano_valid summary_writes_def iteration_def)
qed

text \<open>
  C9. The conversion truncates towards zero: the result is the floor of the elapsed
  milliseconds for a duration that is not negative, and the ceiling for a negative one.
  So with \<open>starting \<le> ending\<close> the summary line shows the floor of the elapsed time in
  milliseconds: 1099.9 ms is reported as 1099.
\<close>

theorem duration_cast_truncates_toward_zero:
  assumes "valid_period p"
  shows "duration_cast_milliseconds p d =
       (if 0 \<le> d then \<lfloor>exact_milliseconds p d\<rfloor> else \<lceil>exact_milliseconds p d\<rceil>)
   \<and> (starting \<le> ending \<longrightarrow>
        last (lines_of (cout_of (worker p id' starting ending []))) =
          summary_line id' \<lfloor>exact_milliseconds p (ending - starting)\<rfloor>)"
  using duration_cast_truncates [OF assms, of d]
    duration_cast_truncates [OF assms, of "ending - starting"]
  by (simp add: last_lines_of_worker)

theorem duration_cast_truncates_toward_zero_witness:
  "valid_period nano
   \<and> exact_milliseconds nano 1099900000 = 1099.9
   \<and> duration_cast_milliseconds nano 1099900000 = 1099
   \<and> \<lfloor>exact_milliseconds nano 1099900000\<rfloor> = 1099
   \<and> (0::int) \<le> 1099900000
   \<and> last (lines_of (cout_of (worker nano 1 0 1099900000 []))) =
       ''Thread 1 finished execution in 1099 milliseconds''"
proof -
  have n: "duration_cast_milliseconds nano 1099900000 = 1099"
    by (simp add: duration_cast_milliseconds_def cf_num_def cf_den_def nano_def cpp_div_def)
  have s: "show_int 1099 = ''1099''" "show_int 1 = ''1''"
    by (simp_all add: show_int_def show_nat.simps digit_char_def)
  have x: "exact_milliseconds nano 1099900000 = 1099.9"
    by (simp add: exact_milliseconds_def nano_def)
  show ?thesis
    using duration_cast_truncates_toward_zero [OF nano_valid, of 1099900000 0 1099900000 1]
    by (simp add: n s x nano_valid summary_line_def)
qed

section \<open>The claims about the process\<close>

text \<open>
  C2. In every complete run (the process has exited) the task with id 1 has written the
  line \<^verbatim>\<open>Thread 1 is yielding...\<close> exactly 10 times, before its summary line, and each
  of these lines is followed in its iteration by the yield and the sleep. The tasks with
  ids 2 and 3 have written no line that announces a yield.
\<close>

theorem complete_run_yield_notices:
  assumes "run env cs initial = Some s" and "status s = Exited n"
  shows "thread_lines T1 s = replicate 10 yield_notice @ [summary_line 1 (elapsed env T1)]
    \<and> length (filter is_yield_notice (thread_lines T1 s)) = 10
    \<and> thread_lines T2 s = [summary_line 2 (elapsed env T2)]
    \<and> thread_lines T3 s = [summary_line 3 (elapsed env T3)]
    \<and> filter is_yield_notice (thread_lines T2 s) = []
    \<and> filter is_yield_notice (thread_lines T3 s) = []
    \<and> thread_actions T1 (history s) =
        Now (fst (readings env T1))
          # concat (replicate 10 (yield_notice_writes @ [Yield, Sleep_for 100]))
          @ Now (snd (readings env T1)) # summary_writes 1 (elapsed env T1)"
proof -
  note inv = reachable_invariant [OF assms(1)]
  have "thread_actions T1 (history s) = program env T1"
    using exited_complete(5) [OF inv assms(2)] .
  then show ?thesis
    by (simp add: exited_thread_lines [OF assms] yield_notice_is_yield_notice
        summary_not_yield_notice program_closed iteration_def)
qed

theorem complete_run_yield_notices_witness:
  "status (the (run example_environment (all_started_first example_environment) initial)) = Exited 0
   \<and> thread_lines T1 (the (run example_environment (all_started_first example_environment) initial))
       = replicate 10 ''Thread 1 is yielding...''
           @ [''Thread 1 finished execution in 1001 milliseconds'']
   \<and> thread_lines T2 (the (run example_environment (all_started_first example_environment) initial))
       = [''Thread 2 finished execution in 1000 milliseconds'']
   \<and> thread_lines T3 (the (run example_environment (all_started_first example_environment) initial))
       = [''Thread 3 finished execution in 1000 milliseconds'']"
proof -
  obtain s where s: "run example_environment (all_started_first example_environment) initial = Some s"
      "status s = Exited 0"
    using all_started_first_exits by blast
  have n: "elapsed example_environment T1 = 1001" "elapsed example_environment T2 = 1000"
      "elapsed example_environment T3 = 1000"
    by (simp_all add: elapsed_def example_environment_def duration_cast_milliseconds_def
        cf_num_def cf_den_def nano_def cpp_div_def)
  have d: "show_int 1001 = ''1001''" "show_int 1000 = ''1000''" "show_int 1 = ''1''"
      "show_int 2 = ''2''" "show_int 3 = ''3''"
    by (simp_all add: show_int_def show_nat.simps digit_char_def)
  show ?thesis
    using complete_run_yield_notices [OF s]
    by (simp add: s n d summary_line_def yield_notice_def)
qed

text \<open>
  C7. \<^verbatim>\<open>main\<close> returns only after the three tasks have completed. In every reachable
  state a thread whose join is done has performed its whole routine. When the process has
  exited, \<^verbatim>\<open>main\<close> has run its seven statements in order, the three joins before the
  return; the return is the last event of the history; every thread has completed and
  the last line it wrote is its summary line.
\<close>

theorem main_returns_after_all_tasks:
  assumes "run env cs initial = Some s"
  shows "(\<forall>t. Join t \<in> set (main_done (history s)) \<longrightarrow>
            threads s t = Some [] \<and> thread_actions t (history s) = program env t)
    \<and> (status s = Exited n \<longrightarrow>
          n = 0
          \<and> main_done (history s) =
              [Start T1 1, Start T2 2, Start T3 3, Join T1, Join T2, Join T3, Return 0]
          \<and> last (history s) = Main_did (Return 0)
          \<and> (\<forall>t. threads s t = Some []
                \<and> thread_actions t (history s) = program env t
                \<and> last (thread_lines t s) = summary_line (thread_id t) (elapsed env t)))"
proof -
  note inv = reachable_invariant [OF assms]
  have "threads s t = Some [] \<and> thread_actions t (history s) = program env t"
    if "Join t \<in> set (main_done (history s))" for t
    using joined_thread_complete [OF inv that] by simp
  moreover have "n = 0
      \<and> main_done (history s) =
          [Start T1 1, Start T2 2, Start T3 3, Join T1, Join T2, Join T3, Return 0]
      \<and> last (history s) = Main_did (Return 0)
      \<and> (\<forall>t. threads s t = Some []
            \<and> thread_actions t (history s) = program env t
            \<and> last (thread_lines t s) = summary_line (thread_id t) (elapsed env t))"
    if ex: "status s = Exited n"
    using exited_complete [OF inv ex] exited_last_event [OF inv ex]
      exited_thread_lines [OF assms ex]
    by (simp add: main_def)
  ultimately show ?thesis
    by blast
qed

theorem main_returns_after_all_tasks_witness:
  "status (the (run example_environment (last_started_first example_environment) initial)) = Exited 0
   \<and> last (history (the (run example_environment (last_started_first example_environment) initial)))
       = Main_did (Return 0)
   \<and> Join T1 \<in> set (main_done (history
        (the (run example_environment (last_started_first example_environment) initial))))
   \<and> threads (the (run example_environment (last_started_first example_environment) initial)) T1
       = Some []
   \<and> last (thread_lines T1
        (the (run example_environment (last_started_first example_environment) initial)))
       = ''Thread 1 finished execution in 1001 milliseconds''
   \<and> last (thread_lines T2
        (the (run example_environment (last_started_first example_environment) initial)))
       = ''Thread 2 finished execution in 1000 milliseconds''
   \<and> last (thread_lines T3
        (the (run example_environment (last_started_first example_environment) initial)))
       = ''Thread 3 finished execution in 1000 milliseconds''"
proof -
  obtain s where s: "run example_environment (last_started_first example_environment) initial = Some s"
      "status s = Exited 0"
    using last_started_first_exits by blast
  have n: "elapsed example_environment T1 = 1001" "elapsed example_environment T2 = 1000"
      "elapsed example_environment T3 = 1000"
    by (simp_all add: elapsed_def example_environment_def duration_cast_milliseconds_def
        cf_num_def cf_den_def nano_def cpp_div_def)
  have d: "show_int 1001 = ''1001''" "show_int 1000 = ''1000''" "show_int 1 = ''1''"
      "show_int 2 = ''2''" "show_int 3 = ''3''"
    by (simp_all add: show_int_def show_nat.simps digit_char_def)
  show ?thesis
    using main_returns_after_all_tasks [OF s(1), of 0] s(2)
    by (simp add: s n d summary_line_def all_threads)
qed

text \<open>
  C4, as amended. Provided no thread creation fails, the driver starts three tasks on the
  worker routine with ids 1, 2, 3 in this order, then joins them in the order 1, 2, 3,
  then returns 0: in every state of such a run \<^verbatim>\<open>main\<close> has run a prefix of these seven
  statements, the process is never stuck before the exit, no run is longer than 98 steps,
  and at the exit the code is 0 and the three threads have run the worker routine with
  the ids 1, 2 and 3.
\<close>

theorem driver_without_start_failure:
  assumes "run env cs initial = Some s" and "Start_fails \<notin> set cs"
  shows "status s \<noteq> Terminated
    \<and> (\<exists>k. main_done (history s) =
          take k [Start T1 1, Start T2 2, Start T3 3, Join T1, Join T2, Join T3, Return 0])
    \<and> length cs \<le> 98
    \<and> (status s = Running \<longrightarrow>
          (\<exists>s'. step env Main_step s = Some s') \<or> (\<exists>t s'. step env (Thread_step t) s = Some s'))
    \<and> (status s = Exited n \<longrightarrow>
          n = 0 \<and> length cs = 98
          \<and> main_done (history s) =
              [Start T1 1, Start T2 2, Start T3 3, Join T1, Join T2, Join T3, Return 0]
          \<and> thread_actions T1 (history s) =
              worker (clock_period env) 1 (fst (readings env T1)) (snd (readings env T1)) []
          \<and> thread_actions T2 (history s) =
              worker (clock_period env) 2 (fst (readings env T2)) (snd (readings env T2)) []
          \<and> thread_actions T3 (history s) =
              worker (clock_period env) 3 (fst (readings env T3)) (snd (readings env T3)) [])"
proof -
  note inv = reachable_invariant [OF assms(1)]
  have len: "length cs + remaining env s = 98"
    using run_remaining [OF invariant_initial assms] by (simp add: remaining_initial)
  have "status s \<noteq> Terminated"
    using no_failure_not_terminated [OF assms] by (simp add: initial_def)
  moreover have "\<exists>k. main_done (history s) =
          take k [Start T1 1, Start T2 2, Start T3 3, Join T1, Join T2, Join T3, Return 0]"
    using main_done_prefix [OF inv] unfolding main_def by (rule exI)
  moreover have "length cs \<le> 98"
    using len by simp
  moreover have "(\<exists>s'. step env Main_step s = Some s') \<or> (\<exists>t s'. step env (Thread_step t) s = Some s')"
    if "status s = Running"
    using progress [OF inv that] .
  moreover have "n = 0 \<and> length cs = 98
          \<and> main_done (history s) =
              [Start T1 1, Start T2 2, Start T3 3, Join T1, Join T2, Join T3, Return 0]
          \<and> thread_actions T1 (history s) =
              worker (clock_period env) 1 (fst (readings env T1)) (snd (readings env T1)) []
          \<and> thread_actions T2 (history s) =
              worker (clock_period env) 2 (fst (readings env T2)) (snd (readings env T2)) []
          \<and> thread_actions T3 (history s) =
              worker (clock_period env) 3 (fst (readings env T3)) (snd (readings env T3)) []"
    if ex: "status s = Exited n"
    using exited_complete(1,3) [OF inv ex] exited_remaining [OF inv ex] len
      exited_complete(5) [OF inv ex, of T1] exited_complete(5) [OF inv ex, of T2]
      exited_complete(5) [OF inv ex, of T3]
    by (simp add: main_def program_def thread_body_def)
  ultimately show ?thesis
    by blast
qed

theorem driver_without_start_failure_witness:
  "Start_fails \<notin> set (all_started_first example_environment)
   \<and> status (the (run example_environment (all_started_first example_environment) initial)) = Exited 0
   \<and> length (all_started_first example_environment) = 98
   \<and> main_done (history (the (run example_environment (all_started_first example_environment) initial)))
       = [Start T1 1, Start T2 2, Start T3 3, Join T1, Join T2, Join T3, Return 0]"
proof -
  obtain s where s: "run example_environment (all_started_first example_environment) initial = Some s"
      "status s = Exited 0"
    using all_started_first_exits by blast
  have nf: "Start_fails \<notin> set (all_started_first example_environment)"
    by (simp add: all_started_first_def run_to_completion_def)
  show ?thesis
    using driver_without_start_failure [OF s(1) nf, of 0] s(2)
    by (simp add: s nf)
qed

text \<open>
  The claim C4 as it stands says that the driver always starts three tasks and ends with
  exit code 0. In this run the creation of the second thread fails: the process is
  terminated after one task has been started.
\<close>

theorem driver_start_failure_counterexample:
  "map_option (\<lambda>s. (status s, main_done (history s), threads s T2, threads s T3))
     (run example_environment [Main_step, Start_fails] initial)
   = Some (Terminated, [Start T1 1], None, None)"
  by (simp add: step_def main_step_def start_fails_def initial_def main_def main_done_def)

text \<open>
  C10. What the worker does is fixed by its \<open>id\<close> and the two readings of the clock. Run
  against the shared state, with any contents of the stream and any interference of the
  other tasks before each of its effects, the routine performs the actions of \<open>worker\<close>
  for its \<open>id\<close> and the two readings it takes, and it takes exactly two. So two runs of
  the routine with the same \<open>id\<close> that read the same values from the clock perform the same
  actions and write the same lines, whatever the shared state and the other tasks do. In
  the process, a thread has always performed a prefix of this routine, and two complete
  runs, under any two schedules and with any readings for the other threads, show the
  same actions and the same lines for a thread whose readings are the same in both; they
  are the actions of the routine run against any shared state that gives these readings.
\<close>

theorem worker_output_depends_on_id_and_clock_only:
  "own_actions p intf id' \<tau> =
       worker p id' (first_reading intf \<tau>) (second_reading intf id' \<tau>) []
   \<and> readings_of (own_actions p intf id' \<tau>) =
       [first_reading intf \<tau>, second_reading intf id' \<tau>]
   \<and> lines_of (cout_of (own_actions p intf id' \<tau>)) =
       (if id' = 1 then replicate 10 yield_notice else [])
         @ [summary_line id'
             (duration_cast_milliseconds p (second_reading intf id' \<tau> - first_reading intf \<tau>))]
   \<and> (readings_of (own_actions p intf_a id' \<tau>_a) = readings_of (own_actions p intf_b id' \<tau>_b) \<longrightarrow>
        own_actions p intf_a id' \<tau>_a = own_actions p intf_b id' \<tau>_b
        \<and> lines_of (cout_of (own_actions p intf_a id' \<tau>_a)) =
            lines_of (cout_of (own_actions p intf_b id' \<tau>_b)))
   \<and> worker p id' starting ending w = w @ worker p id' starting ending []
   \<and> (run env cs initial = Some s \<longrightarrow>
        (\<exists>rest. thread_actions t (history s) @ rest =
           worker (clock_period env) (thread_id t) (fst (readings env t)) (snd (readings env t)) []))
   \<and> (run env cs initial = Some s \<and> status s = Exited n
        \<and> run env' cs' initial = Some s' \<and> status s' = Exited n'
        \<and> clock_period env' = clock_period env \<and> readings env' t = readings env t \<longrightarrow>
        thread_actions t (history s') = thread_actions t (history s)
        \<and> thread_lines t s' = thread_lines t s)
   \<and> (run env cs initial = Some s \<and> status s = Exited n
        \<and> first_reading intf \<tau> = fst (readings env t)
        \<and> second_reading intf (thread_id t) \<tau> = snd (readings env t) \<longrightarrow>
        thread_actions t (history s) = own_actions (clock_period env) intf (thread_id t) \<tau>)"
proof (intro conjI impI)
  show own: "own_actions p intf id' \<tau> =
       worker p id' (first_reading intf \<tau>) (second_reading intf id' \<tau>) []" for p intf id' \<tau>
    by (rule own_actions_refines)
  show rd: "readings_of (own_actions p intf id' \<tau>) =
      [first_reading intf \<tau>, second_reading intf id' \<tau>]" for p intf id' \<tau>
    by (simp only: own readings_of_worker)
  show "lines_of (cout_of (own_actions p intf id' \<tau>)) =
       (if id' = 1 then replicate 10 yield_notice else [])
         @ [summary_line id'
             (duration_cast_milliseconds p (second_reading intf id' \<tau> - first_reading intf \<tau>))]"
    by (simp only: own lines_of_worker)
  show "worker p id' starting ending w = w @ worker p id' starting ending []"
    by (rule worker_appends)
  show "\<exists>rest. thread_actions t (history s) @ rest =
      worker (clock_period env) (thread_id t) (fst (readings env t)) (snd (readings env t)) []"
    if "run env cs initial = Some s"
    using thread_actions_prefix [OF reachable_invariant [OF that], of t]
    by (simp add: program_def thread_body_def)
  {
    assume "readings_of (own_actions p intf_a id' \<tau>_a) = readings_of (own_actions p intf_b id' \<tau>_b)"
    then have "first_reading intf_a \<tau>_a = first_reading intf_b \<tau>_b"
        and "second_reading intf_a id' \<tau>_a = second_reading intf_b id' \<tau>_b"
      by (simp_all add: rd)
    then show e: "own_actions p intf_a id' \<tau>_a = own_actions p intf_b id' \<tau>_b"
      by (simp add: own)
    then show "lines_of (cout_of (own_actions p intf_a id' \<tau>_a)) =
        lines_of (cout_of (own_actions p intf_b id' \<tau>_b))"
      by simp
  }
  {
    assume a: "run env cs initial = Some s \<and> status s = Exited n
          \<and> run env' cs' initial = Some s' \<and> status s' = Exited n'
          \<and> clock_period env' = clock_period env \<and> readings env' t = readings env t"
    have "thread_actions t (history s) = program env t"
      using a exited_complete(5) reachable_invariant by blast
    moreover have "thread_actions t (history s') = program env' t"
      using a exited_complete(5) reachable_invariant by blast
    moreover have "program env' t = program env t"
      using a by (simp add: program_def thread_body_def)
    ultimately show "thread_actions t (history s') = thread_actions t (history s)"
      and "thread_lines t s' = thread_lines t s"
      by (simp_all add: thread_lines_def)
  }
  {
    assume a: "run env cs initial = Some s \<and> status s = Exited n
          \<and> first_reading intf \<tau> = fst (readings env t)
          \<and> second_reading intf (thread_id t) \<tau> = snd (readings env t)"
    have "thread_actions t (history s) = program env t"
      using a exited_complete(5) reachable_invariant by blast
    then show "thread_actions t (history s) =
        own_actions (clock_period env) intf (thread_id t) \<tau>"
      using a by (simp add: own program_def thread_body_def)
  }
qed

theorem worker_output_depends_on_id_and_clock_only_witness:
  "readings_of (own_actions nano quiet_interference 1 fresh_task) = [5000, 1001905000]
   \<and> readings_of (own_actions nano busy_interference 1 later_task) = [5000, 1001905000]
   \<and> around later_task \<noteq> around fresh_task
   \<and> busy_interference 0 (around later_task) \<noteq> quiet_interference 0 (around fresh_task)
   \<and> own_actions nano quiet_interference 1 fresh_task =
       own_actions nano busy_interference 1 later_task
   \<and> lines_of (cout_of (own_actions nano busy_interference 1 later_task)) =
       replicate 10 ''Thread 1 is yielding...''
         @ [''Thread 1 finished execution in 1001 milliseconds'']
   \<and> status (the (run example_environment (all_started_first example_environment) initial)) = Exited 0
   \<and> status (the (run other_environment (last_started_first other_environment) initial)) = Exited 0
   \<and> clock_period other_environment = clock_period example_environment
   \<and> readings other_environment T1 = readings example_environment T1
   \<and> readings other_environment T2 \<noteq> readings example_environment T2
   \<and> thread_lines T1 (the (run other_environment (last_started_first other_environment) initial))
       = thread_lines T1 (the (run example_environment (all_started_first example_environment) initial))
   \<and> thread_actions T1
        (history (the (run other_environment (last_started_first other_environment) initial)))
       = thread_actions T1
        (history (the (run example_environment (all_started_first example_environment) initial)))
   \<and> thread_actions T1
        (history (the (run example_environment (all_started_first example_environment) initial)))
       = own_actions nano busy_interference 1 later_task"
proof -
  obtain s where s: "run example_environment (all_started_first example_environment) initial = Some s"
      "status s = Exited 0"
    using all_started_first_exits by blast
  obtain s' where s': "run other_environment (last_started_first other_environment) initial = Some s'"
      "status s' = Exited 0"
    using last_started_first_exits by blast
  have e: "clock_period other_environment = clock_period example_environment"
    "readings other_environment T1 = readings example_environment T1"
    "readings other_environment T2 \<noteq> readings example_environment T2"
    "clock_period example_environment = nano"
    "readings example_environment T1 = (5000, 1001905000)"
    by (simp_all add: other_environment_def example_environment_def)
  note t = worker_output_depends_on_id_and_clock_only
    [where p = nano and id' = 1 and intf = busy_interference and \<tau> = later_task
      and intf_a = quiet_interference and \<tau>_a = fresh_task
      and intf_b = busy_interference and \<tau>_b = later_task
      and env = example_environment and cs = "all_started_first example_environment" and s = s
      and env' = other_environment and cs' = "last_started_first other_environment" and s' = s'
      and t = T1 and n = 0 and n' = 0]
  note busy_readings = t [THEN conjunct2, THEN conjunct1]
  note busy_lines = t [THEN conjunct2, THEN conjunct2, THEN conjunct1]
  note same = t [THEN conjunct2, THEN conjunct2, THEN conjunct2, THEN conjunct1]
  note runs = t [THEN conjunct2, THEN conjunct2, THEN conjunct2, THEN conjunct2, THEN conjunct2,
      THEN conjunct2, THEN conjunct1]
  note in_process = t [THEN conjunct2, THEN conjunct2, THEN conjunct2, THEN conjunct2,
      THEN conjunct2, THEN conjunct2, THEN conjunct2]
  have quiet_readings:
    "readings_of (own_actions nano quiet_interference 1 fresh_task) = [5000, 1001905000]"
    using worker_output_depends_on_id_and_clock_only
      [where p = nano and id' = 1 and intf = quiet_interference and \<tau> = fresh_task,
        THEN conjunct2, THEN conjunct1]
    by (simp add: example_readings)
  have r: "readings_of (own_actions nano busy_interference 1 later_task) = [5000, 1001905000]"
    using busy_readings by (simp add: example_readings)
  have n: "duration_cast_milliseconds nano 1001900000 = 1001"
    by (simp add: duration_cast_milliseconds_def cf_num_def cf_den_def nano_def cpp_div_def)
  have d: "show_int 1001 = ''1001''" "show_int 1 = ''1''"
    by (simp_all add: show_int_def show_nat.simps digit_char_def)
  have l: "lines_of (cout_of (own_actions nano busy_interference 1 later_task)) =
       replicate 10 ''Thread 1 is yielding...''
         @ [''Thread 1 finished execution in 1001 milliseconds'']"
    using busy_lines by (simp add: example_readings n d summary_line_def yield_notice_def)
  have eq: "own_actions nano quiet_interference 1 fresh_task =
       own_actions nano busy_interference 1 later_task"
    using same quiet_readings r by simp
  have differ: "around later_task \<noteq> around fresh_task"
    "busy_interference 0 (around later_task) \<noteq> quiet_interference 0 (around fresh_task)"
    by (simp_all add: later_task_def fresh_task_def busy_interference_def quiet_interference_def)
  have two: "thread_actions T1 (history s') = thread_actions T1 (history s)
      \<and> thread_lines T1 s' = thread_lines T1 s"
    using runs s s' e by simp
  have "thread_actions T1 (history s) = own_actions nano busy_interference 1 later_task"
    using in_process s e by (simp add: example_readings)
  then show ?thesis
    using quiet_readings r eq l differ e two by (simp add: s s')
qed

end
